(* ===== verification/Aegis_Prelude.thy ===== *)
theory Aegis_Prelude
  imports Main "HOL-Library.Word"
begin

text \<open>
  Shared foundations of the AEGIS development: kernel error codes and the results of C
  functions, the byte strings of the C library the sources call (\<open>strncmp\<close>,
  \<open>strscpy\<close>, \<open>strnlen\<close>, \<open>memset\<close>), printk levels, list walks in the style of
  \<open>list_for_each_entry\<close>, and the rewrite collections the component theories use.
\<close>

named_theorems clib \<open>facts about the modelled C library\<close>
named_theorems aegis_defs \<open>definitions of module operations, for case analysis on their branches\<close>
named_theorems frame \<open>what an operation leaves unchanged\<close>


section \<open>Error codes and C results\<close>

text \<open>
  The error numbers the sources name, and \<open>Eother\<close> for a code that comes back from a
  kernel service. A C function that returns a negative error number or a non-negative value
  has a result in \<open>errno + nat\<close>: \<open>Inl e\<close> is the return value \<open>-e\<close>.
\<close>

datatype errno =
    EPERM | ENOENT | ENOMEM | EACCES | EFAULT | EEXIST | EINVAL | ENOSPC | ERANGE | Eother nat

fun errno_code :: "errno \<Rightarrow> int" where
  "errno_code EPERM = 1"
| "errno_code ENOENT = 2"
| "errno_code ENOMEM = 12"
| "errno_code EACCES = 13"
| "errno_code EFAULT = 14"
| "errno_code EEXIST = 17"
| "errno_code EINVAL = 22"
| "errno_code ENOSPC = 28"
| "errno_code ERANGE = 34"
| "errno_code (Eother n) = int n"

type_synonym cret = "errno + nat"

abbreviation ret0 :: cret where
  "ret0 \<equiv> Inr 0"

fun cret_code :: "cret \<Rightarrow> int" where
  "cret_code (Inl e) = - errno_code e"
| "cret_code (Inr n) = int n"


section \<open>printk levels\<close>

datatype loglevel = KERN_ERR | KERN_WARNING | KERN_INFO

fun level_nr :: "loglevel \<Rightarrow> nat" where
  "level_nr KERN_ERR = 3"
| "level_nr KERN_WARNING = 4"
| "level_nr KERN_INFO = 6"

text \<open>Levels are ordered by their number: a smaller level is more severe.\<close>

instantiation loglevel :: linorder
begin

definition less_eq_loglevel :: "loglevel \<Rightarrow> loglevel \<Rightarrow> bool" where
  "less_eq_loglevel a b \<longleftrightarrow> level_nr a \<le> level_nr b"

definition less_loglevel :: "loglevel \<Rightarrow> loglevel \<Rightarrow> bool" where
  "less_loglevel a b \<longleftrightarrow> level_nr a < level_nr b"

instance
proof
  fix a b c :: loglevel
  show "(a < b) = (a \<le> b \<and> \<not> b \<le> a)"
    by (auto simp: less_eq_loglevel_def less_loglevel_def)
  show "a \<le> a" by (simp add: less_eq_loglevel_def)
  show "a \<le> b \<Longrightarrow> b \<le> c \<Longrightarrow> a \<le> c" by (simp add: less_eq_loglevel_def)
  show "a \<le> b \<Longrightarrow> b \<le> a \<Longrightarrow> a = b"
    by (cases a; cases b) (simp_all add: less_eq_loglevel_def)
  show "a \<le> b \<or> b \<le> a" by (auto simp: less_eq_loglevel_def)
qed

end


section \<open>C strings\<close>

text \<open>
  A \<open>char\<close> array or the memory behind a \<open>const char *\<close> is a list of bytes; the C string
  it holds is what stands before the first NUL, and a read past the listed bytes sees NUL.
\<close>

abbreviation NUL :: char where "NUL \<equiv> CHR 0x00"
abbreviation LF :: char where "LF \<equiv> CHR 0x0A"
abbreviation CR :: char where "CR \<equiv> CHR 0x0D"

fun cbyte :: "string \<Rightarrow> char" where
  "cbyte [] = NUL"
| "cbyte (c # cs) = c"

definition cstr :: "string \<Rightarrow> string" where
  "cstr buf = takeWhile (\<lambda>c. c \<noteq> NUL) buf"

fun strncmp :: "nat \<Rightarrow> string \<Rightarrow> string \<Rightarrow> int" where
  "strncmp 0 a b = 0"
| "strncmp (Suc n) a b =
     (if cbyte a \<noteq> cbyte b
      then (if (of_char (cbyte a) :: nat) < of_char (cbyte b) then -1 else 1)
      else if cbyte a = NUL then 0
      else strncmp n (tl a) (tl b))"

definition memset0 :: "nat \<Rightarrow> string" where
  "memset0 n = replicate n NUL"

definition strscpy :: "string \<Rightarrow> string \<Rightarrow> nat \<Rightarrow> string" where
  "strscpy dst src count =
     (if count = 0 then dst
      else let s = take (count - 1) (cstr src) in s @ [NUL] @ drop (Suc (length s)) dst)"

definition strnlen :: "string \<Rightarrow> nat \<Rightarrow> nat" where
  "strnlen s n = length (cstr (take n s))"

lemma cstr_Nil [clib, simp]: "cstr [] = []"
  by (simp add: cstr_def)

lemma cstr_Cons [clib]: "cstr (c # cs) = (if c = NUL then [] else c # cstr cs)"
  by (simp add: cstr_def)

lemma cstr_append_NUL [clib, simp]: "cstr (s @ NUL # t) = cstr s"
  by (induction s) (simp_all add: cstr_Cons)

lemma cstr_no_NUL [simp]: "NUL \<notin> set (cstr s)"
  by (auto simp: cstr_def dest: set_takeWhileD)

lemma cstr_id: "NUL \<notin> set s \<Longrightarrow> cstr s = s"
  by (auto simp: cstr_def takeWhile_eq_all_conv)

lemma cstr_idem [clib, simp]: "cstr (cstr s) = cstr s"
  by (rule cstr_id) simp

lemma cstr_take_cstr [clib, simp]: "cstr (take n (cstr s)) = take n (cstr s)"
  by (rule cstr_id) (auto dest: in_set_takeD)

lemma length_cstr_le: "length (cstr s) \<le> length s"
  by (simp add: cstr_def length_takeWhile_le)

lemma cstr_eq_iff_no_NUL: "cstr s = s \<longleftrightarrow> NUL \<notin> set s"
  by (metis cstr_id cstr_no_NUL)

text \<open>\<open>strncmp\<close> reports equality exactly when the first \<open>n\<close> bytes of the C strings agree.\<close>

lemma strncmp_0_iff: "strncmp n a b = 0 \<longleftrightarrow> take n (cstr a) = take n (cstr b)"
proof (induction n arbitrary: a b)
  case 0
  then show ?case by simp
next
  case (Suc n)
  then show ?case
    by (cases a; cases b) (auto simp: cstr_Cons)
qed

text \<open>
  Against a buffer whose string ends before the limit, the comparison is full equality: no
  longer string is accepted because it agrees on the first \<open>n\<close> bytes.
\<close>

lemma take_eq_short: "length x < n \<Longrightarrow> (take n x = take n y) = (x = y)"
  by (metis length_take less_not_refl2 linorder_not_le min.absorb2 order_less_imp_le take_all)

lemma strncmp_terminated [clib]:
  "length (cstr a) < n \<Longrightarrow> (strncmp n a b = 0) = (cstr a = cstr b)"
  unfolding strncmp_0_iff by (rule take_eq_short)

text \<open>A zeroed array filled by \<open>strscpy\<close> keeps its size and is always terminated.\<close>

lemma cstr_strscpy [clib]:
  "0 < count \<Longrightarrow> cstr (strscpy dst src count) = take (count - 1) (cstr src)"
  by (simp add: strscpy_def Let_def)

lemma length_strscpy [clib]:
  "length dst = count \<Longrightarrow> length (strscpy dst src count) = count"
  by (auto simp: strscpy_def Let_def)

lemma length_memset0 [clib, simp]: "length (memset0 n) = n"
  by (simp add: memset0_def)

lemma strnlen_eq_iff [clib]: "n \<le> length s \<Longrightarrow> strnlen s n = n \<longleftrightarrow> NUL \<notin> set (take n s)"
  unfolding strnlen_def
  by (metis cstr_def cstr_id length_take min.absorb2 cstr_no_NUL takeWhile_eq_take take_all_iff
      order_refl)


section \<open>List walks\<close>

text \<open>
  \<open>list_for_each_entry_safe\<close> with a \<open>list_del\<close> and a \<open>break\<close>: the first entry that
  satisfies the test is unlinked; \<open>None\<close> when the walk ends without one.
\<close>

fun del_first :: "('a \<Rightarrow> bool) \<Rightarrow> 'a list \<Rightarrow> 'a list option" where
  "del_first P [] = None"
| "del_first P (x # xs) = (if P x then Some xs else map_option ((#) x) (del_first P xs))"

lemma del_first_None [simp]: "del_first P xs = None \<longleftrightarrow> \<not> list_ex P xs"
  by (induction xs) auto

lemma del_first_miss [simp]: "\<not> list_ex P xs \<Longrightarrow> del_first P xs = None"
  by simp

lemma del_first_Some:
  "del_first P xs = Some ys \<Longrightarrow>
   \<exists>us x vs. xs = us @ x # vs \<and> ys = us @ vs \<and> P x \<and> \<not> list_ex P us"
proof (induction xs arbitrary: ys)
  case Nil
  then show ?case by simp
next
  case (Cons a xs)
  show ?case
  proof (cases "P a")
    case True
    with Cons.prems show ?thesis by (intro exI [of _ "[]"]) auto
  next
    case False
    with Cons.prems obtain zs where zs: "del_first P xs = Some zs" "ys = a # zs" by auto
    from Cons.IH [OF zs(1)] obtain us x vs
      where "xs = us @ x # vs" "zs = us @ vs" "P x" "\<not> list_ex P us" by blast
    with zs(2) False show ?thesis by (intro exI [of _ "a # us"]) auto
  qed
qed

lemma del_first_append_miss:
  "\<not> list_ex P xs \<Longrightarrow> del_first P (xs @ ys) = map_option ((@) xs) (del_first P ys)"
  by (induction xs; cases "del_first P ys") auto

lemma del_first_append_last:
  "\<not> list_ex P xs \<Longrightarrow> P x \<Longrightarrow> del_first P (xs @ [x]) = Some xs"
  by (induction xs) auto

lemma take_append_drop_length: "take n xs @ drop (length (take n xs)) xs = xs"
  by (cases "n \<le> length xs") auto

lemma list_ex_conv: "list_ex P xs \<longleftrightarrow> (\<exists>x\<in>set xs. P x)"
  by (auto simp: list_ex_iff)

end
