(* ===== verification/Aegis_Text.thy ===== *)
theory Aegis_Text
  imports Aegis_Prelude
begin

text \<open>
  The text side of the C library: the conversions of \<open>printf\<close>-style formats the sources
  use (\<open>%d\<close>, \<open>%x\<close>, \<open>%02x\<close>, \<open>%08x\<close>, field widths), and the two parsers the
  control interface calls, \<open>sscanf\<close> with the format \<open>"%15s %d"\<close> and \<open>kstrtoint\<close> in
  base 10, as the kernel's C library defines them.
\<close>

section \<open>Printing numbers\<close>

definition digit_char :: "nat \<Rightarrow> char" where
  "digit_char d = ''0123456789abcdef'' ! d"

function num_base :: "nat \<Rightarrow> nat \<Rightarrow> string" where
  "num_base b n =
     (if b < 2 then [] else if n < b then [digit_char n]
      else num_base b (n div b) @ [digit_char (n mod b)])"
  by pat_completeness auto
termination
  by (relation "measure snd") auto

declare num_base.simps [simp del]

definition fmt_u :: "nat \<Rightarrow> string" where
  "fmt_u n = num_base 10 n"

definition fmt_d :: "int \<Rightarrow> string" where
  "fmt_d i = (if i < 0 then CHR ''-'' # fmt_u (nat (- i)) else fmt_u (nat i))"

definition fmt_x :: "nat \<Rightarrow> string" where
  "fmt_x n = num_base 16 n"

definition pad_left :: "char \<Rightarrow> nat \<Rightarrow> string \<Rightarrow> string" where
  "pad_left c w s = replicate (w - length s) c @ s"

definition pad_right :: "nat \<Rightarrow> string \<Rightarrow> string" where
  "pad_right w s = s @ replicate (w - length s) (CHR '' '')"

definition fmt_02x :: "8 word \<Rightarrow> string" where
  "fmt_02x b = pad_left (CHR ''0'') 2 (fmt_x (unat b))"

definition fmt_08x :: "32 word \<Rightarrow> string" where
  "fmt_08x v = pad_left (CHR ''0'') 8 (fmt_x (unat v))"


section \<open>Character classes and number scanning\<close>

definition isdigit :: "char \<Rightarrow> bool" where
  "isdigit c \<longleftrightarrow> (48 :: nat) \<le> of_char c \<and> of_char c \<le> (57 :: nat)"

definition digit_val :: "char \<Rightarrow> nat" where
  "digit_val c = of_char c - 48"

text \<open>The kernel's \<open>isspace\<close>: tab, line feed, VT, FF, CR, space and the Latin-1 no-break space.\<close>

definition isspace :: "char \<Rightarrow> bool" where
  "isspace c \<longleftrightarrow> of_char c \<in> {9, 10, 11, 12, 13, 32, 160 :: nat}"

definition skip_spaces :: "string \<Rightarrow> string" where
  "skip_spaces s = dropWhile isspace s"

fun scan_digits :: "nat \<Rightarrow> string \<Rightarrow> nat \<times> string" where
  "scan_digits v [] = (v, [])"
| "scan_digits v (c # cs) =
     (if isdigit c then scan_digits (10 * v + digit_val c) cs else (v, c # cs))"

text \<open>Conversion of a 64-bit value to \<open>int\<close>: the low 32 bits in two's complement.\<close>

definition to_int32 :: "int \<Rightarrow> int" where
  "to_int32 v = (v + 2 ^ 31) mod 2 ^ 32 - 2 ^ 31"

definition int32 :: "int \<Rightarrow> bool" where
  "int32 v \<longleftrightarrow> - (2 ^ 31) \<le> v \<and> v < 2 ^ 31"


section \<open>sscanf with the format of the process endpoints\<close>

definition scan_d :: "string \<Rightarrow> int option" where
  "scan_d s =
     (if cbyte s = CHR ''-''
      then (if isdigit (cbyte (tl s)) then Some (- int (fst (scan_digits 0 (tl s)))) else None)
      else if isdigit (cbyte s) then Some (int (fst (scan_digits 0 s))) else None)"

text \<open>
  \<open>sscanf(buf, "%15s %d", comm, &pid)\<close>: the number of conversions, the token and the
  number. A conversion that is not reached leaves its target as it was.
\<close>

definition sscanf_15s_d :: "string \<Rightarrow> string \<Rightarrow> int \<Rightarrow> nat \<times> string \<times> int" where
  "sscanf_15s_d buf comm pid =
     (let str = cstr buf in
      if str = [] then (0, comm, pid)
      else
        let str1 = skip_spaces str;
            tok = take 15 (takeWhile (\<lambda>c. \<not> isspace c) str1);
            rest = skip_spaces (drop (length tok) str1)
        in case scan_d rest of
             None \<Rightarrow> (1, tok, pid)
           | Some v \<Rightarrow> (2, tok, to_int32 v))"


section \<open>kstrtoint in base 10\<close>

text \<open>
  At least one digit, then at most one line feed, then the end of the string; a leading
  \<open>-\<close> or \<open>+\<close> is accepted; a value outside \<open>int\<close> is \<open>-ERANGE\<close>.
\<close>

definition kstrtoull :: "string \<Rightarrow> errno + nat" where
  "kstrtoull s =
     (if \<not> isdigit (cbyte s) then Inl EINVAL
      else let (v, rest) = scan_digits 0 s;
               rest' = (if cbyte rest = LF then tl rest else rest)
           in if rest' \<noteq> [] then Inl EINVAL else Inr v)"

definition kstrtoint :: "string \<Rightarrow> errno + int" where
  "kstrtoint buf =
     (let s = cstr buf;
          r = (if cbyte s = CHR ''-'' then map_sum id (\<lambda>v. - int v) (kstrtoull (tl s))
               else map_sum id int (kstrtoull (if cbyte s = CHR ''+'' then tl s else s)))
      in case r of Inl e \<Rightarrow> Inl e | Inr v \<Rightarrow> if int32 v then Inr v else Inl ERANGE)"


section \<open>What printing and parsing promise each other\<close>

lemma digit_char_cases:
  "d < 10 \<Longrightarrow> isdigit (digit_char d) \<and> digit_val (digit_char d) = d \<and> \<not> isspace (digit_char d)"
proof -
  assume "d < 10"
  then have "d \<in> {0, 1, 2, 3, 4, 5, 6, 7, 8, 9}" by auto
  then show ?thesis
    by (auto simp: digit_char_def isdigit_def digit_val_def isspace_def)
qed

lemma num_base_10: "num_base 10 n =
    (if n < 10 then [digit_char n] else num_base 10 (n div 10) @ [digit_char (n mod 10)])"
  by (subst num_base.simps) simp

lemma fmt_u_rec: "fmt_u n =
    (if n < 10 then [digit_char n] else fmt_u (n div 10) @ [digit_char (n mod 10)])"
  unfolding fmt_u_def by (rule num_base_10)

lemma fmt_u_digits: "\<forall>c\<in>set (fmt_u n). isdigit c \<and> \<not> isspace c"
proof (induction n rule: less_induct)
  case (less n)
  have "\<not> n < 10 \<Longrightarrow> \<forall>c\<in>set (fmt_u (n div 10)). isdigit c \<and> \<not> isspace c"
    by (rule less) simp
  then show ?case
    by (cases "n < 10") (auto simp: fmt_u_rec [of n] digit_char_cases)
qed

lemma fmt_u_nonempty [simp]: "fmt_u n \<noteq> []"
  by (simp add: fmt_u_rec)

lemma isdigit_not_NUL [simp]: "isdigit c \<Longrightarrow> c \<noteq> NUL"
  by (auto simp: isdigit_def)

lemma isdigit_not_sign [simp]: "isdigit c \<Longrightarrow> c \<noteq> CHR ''-'' \<and> c \<noteq> CHR ''+'' \<and> c \<noteq> LF"
  by (auto simp: isdigit_def)

lemma isdigit_NUL [simp]: "\<not> isdigit NUL" and isdigit_minus [simp]: "\<not> isdigit (CHR ''-'')"
  by (simp_all add: isdigit_def)

lemma cbyte_in_set: "s \<noteq> [] \<Longrightarrow> cbyte s \<in> set s"
  by (cases s) auto

lemma isdigit_cbyte_fmt_u [simp]: "isdigit (cbyte (fmt_u n @ r))"
  using fmt_u_digits [of n] cbyte_in_set [OF fmt_u_nonempty, of n]
  by (cases "fmt_u n") auto

lemma fmt_u_no_NUL: "NUL \<notin> set (fmt_u n)"
  using fmt_u_digits [of n] by auto

definition digits_value :: "nat \<Rightarrow> string \<Rightarrow> nat" where
  "digits_value v ds = foldl (\<lambda>v c. 10 * v + digit_val c) v ds"

lemma scan_digits_append:
  "\<forall>c\<in>set ds. isdigit c \<Longrightarrow> scan_digits v (ds @ r) = scan_digits (digits_value v ds) r"
  by (induction ds arbitrary: v) (auto simp: digits_value_def)

lemma digits_value_fmt_u: "digits_value 0 (fmt_u n) = n"
proof (induction n rule: less_induct)
  case (less n)
  show ?case
  proof (cases "n < 10")
    case True
    then show ?thesis by (simp add: fmt_u_rec [of n] digits_value_def digit_char_cases)
  next
    case False
    with less have "digits_value 0 (fmt_u (n div 10)) = n div 10" by simp
    with False show ?thesis
      by (simp add: fmt_u_rec [of n] digits_value_def digit_char_cases)
  qed
qed

lemma scan_digits_stop: "\<not> isdigit (cbyte r) \<Longrightarrow> scan_digits v r = (v, r)"
  by (cases r) auto

lemma scan_digits_fmt_u:
  "\<not> isdigit (cbyte r) \<Longrightarrow> scan_digits 0 (fmt_u n @ r) = (n, r)"
  using fmt_u_digits [of n]
  by (simp add: scan_digits_append digits_value_fmt_u scan_digits_stop)

lemma kstrtoull_fmt_u: "kstrtoull (fmt_u n) = Inr n"
  using scan_digits_fmt_u [of "[]" n] isdigit_cbyte_fmt_u [of n "[]"]
  by (simp add: kstrtoull_def)

lemma fmt_u_head: "cbyte (fmt_u n @ r) \<noteq> CHR ''-'' \<and> cbyte (fmt_u n @ r) \<noteq> CHR ''+''"
  using isdigit_cbyte_fmt_u [of n r] isdigit_not_sign by blast

lemma kstrtoint_fmt_d: "int32 i \<Longrightarrow> kstrtoint (fmt_d i) = Inr i"
  using fmt_u_head [of "nat i" "[]"] fmt_u_no_NUL [of "nat i"] fmt_u_no_NUL [of "nat (- i)"]
  by (auto simp: kstrtoint_def fmt_d_def cstr_id cstr_Cons kstrtoull_fmt_u Let_def)

lemma scan_d_fmt_d: "scan_d (fmt_d i) = Some i"
  using isdigit_cbyte_fmt_u [of "nat i" "[]"] isdigit_cbyte_fmt_u [of "nat (- i)" "[]"]
    scan_digits_fmt_u [of "[]"] fmt_u_head [of "nat i" "[]"]
  by (auto simp: scan_d_def fmt_d_def)

lemma to_int32_id: "int32 i \<Longrightarrow> to_int32 i = i"
  by (simp add: to_int32_def int32_def)

lemma int32_to_int32: "int32 (to_int32 v)"
  using pos_mod_bound [of "2 ^ 32" "v + 2 ^ 31"] pos_mod_sign [of "2 ^ 32" "v + 2 ^ 31"]
  by (simp add: to_int32_def int32_def)

lemma fmt_d_no_space_NUL: "\<forall>c\<in>set (fmt_d i). \<not> isspace c \<and> c \<noteq> NUL"
  using fmt_u_digits fmt_u_no_NUL by (auto simp: fmt_d_def isspace_def)

lemma fmt_d_nonempty [simp]: "fmt_d i \<noteq> []"
  by (simp add: fmt_d_def)

text \<open>A process name the endpoints can carry: one word of 1 to 15 bytes.\<close>

definition comm_word :: "string \<Rightarrow> bool" where
  "comm_word c \<longleftrightarrow> c \<noteq> [] \<and> length c \<le> 15 \<and> (\<forall>x\<in>set c. \<not> isspace x \<and> x \<noteq> NUL)"

lemma skip_spaces_id: "\<not> isspace (cbyte s) \<Longrightarrow> skip_spaces s = s"
  by (cases s) (auto simp: skip_spaces_def)

lemma isspace_space [simp]: "isspace (CHR '' '')"
  by (simp add: isspace_def)

lemma isspace_NUL [simp]: "\<not> isspace NUL"
  by (simp add: isspace_def)

lemma skip_spaces_head: "s \<noteq> [] \<Longrightarrow> \<forall>c\<in>set s. \<not> isspace c \<Longrightarrow> skip_spaces (s @ r) = s @ r"
  by (cases s) (auto simp: skip_spaces_def)

lemma takeWhile_word:
  "\<forall>c\<in>set s. \<not> isspace c \<Longrightarrow> takeWhile (\<lambda>c. \<not> isspace c) (s @ CHR '' '' # r) = s"
  by (induction s) auto

lemma sscanf_comm:
  assumes c: "comm_word c"
  shows "sscanf_15s_d c buf pid = (1, c, pid)"
proof -
  have 1: "cstr c = c"
    using c by (intro cstr_id) (auto simp: comm_word_def)
  have 2: "skip_spaces c = c"
    using c skip_spaces_head [of c "[]"] by (simp add: comm_word_def)
  have 3: "takeWhile (\<lambda>c. \<not> isspace c) c = c"
    using c by (simp add: comm_word_def takeWhile_eq_all_conv)
  show ?thesis
    unfolding sscanf_15s_d_def Let_def 1 2 3
    using c by (simp add: comm_word_def scan_d_def skip_spaces_def)
qed

lemma sscanf_comm_pid:
  assumes c: "comm_word c" and p: "int32 p"
  shows "sscanf_15s_d (c @ '' '' @ fmt_d p) buf pid = (2, c, p)"
proof -
  have 1: "cstr (c @ '' '' @ fmt_d p) = c @ '' '' @ fmt_d p"
    using c fmt_d_no_space_NUL by (intro cstr_id) (auto simp: comm_word_def)
  have 2: "skip_spaces (c @ '' '' @ fmt_d p) = c @ '' '' @ fmt_d p"
    using c by (intro skip_spaces_head) (auto simp: comm_word_def)
  have 3: "takeWhile (\<lambda>c. \<not> isspace c) (c @ '' '' @ fmt_d p) = c"
    using c takeWhile_word [of c "fmt_d p"] by (simp add: comm_word_def)
  have 4: "skip_spaces ('' '' @ fmt_d p) = fmt_d p"
    using skip_spaces_head [OF fmt_d_nonempty, of p "[]"] fmt_d_no_space_NUL [of p]
    by (simp add: skip_spaces_def)
  show ?thesis
    unfolding sscanf_15s_d_def Let_def 1 2 3
    using c p 4 by (simp add: comm_word_def scan_d_fmt_d to_int32_id)
qed

text \<open>Whatever is written, the token has at most 15 bytes, no white space and no NUL.\<close>

lemma sscanf_token:
  assumes "sscanf_15s_d buf comm pid = (n, tok, v)" and "1 \<le> n"
  shows "length tok \<le> 15 \<and> (\<forall>x\<in>set tok. \<not> isspace x \<and> x \<noteq> NUL)"
proof -
  let ?s = "skip_spaces (cstr buf)"
  have tok: "tok = take 15 (takeWhile (\<lambda>c. \<not> isspace c) ?s)"
    using assms by (auto simp: sscanf_15s_d_def Let_def split: if_splits option.splits)
  have "NUL \<notin> set ?s"
    using set_dropWhileD [of NUL isspace "cstr buf"] by (auto simp: skip_spaces_def)
  then show ?thesis
    unfolding tok by (auto dest!: in_set_takeD set_takeWhileD)
qed

end
