(* ===== verification/Aegis_State.thy ===== *)
theory Aegis_State
  imports Aegis_Text
begin

unbundle bit_operations_syntax

text \<open>
  The memory of the module: the constants, structures and utility macros of
  \<^verbatim>\<open>aegis/aegis.h\<close> and the file-scope variables of the module's C files, gathered in one
  record. Every operation of the module takes this record and returns the updated one.
  Machine words keep their width: the feature mask is a 32-bit word and the event counters
  are 64-bit words that wrap. A kernel ring buffer (\<open>klog\<close>) records what
  \<open>printk\<close> is given.
\<close>

section \<open>Configuration constants\<close>

definition AEGIS_VERSION :: string where "AEGIS_VERSION = ''1.0.0''"
definition AEGIS_NAME :: string where "AEGIS_NAME = ''aegis''"
definition AEGIS_MAX_PROTECTED_PROCS :: nat where "AEGIS_MAX_PROTECTED_PROCS = 64"
definition AEGIS_MAX_PROTECTED_FILES :: nat where "AEGIS_MAX_PROTECTED_FILES = 128"
definition AEGIS_MAX_BLOCKED_SYSCALLS :: nat where "AEGIS_MAX_BLOCKED_SYSCALLS = 256"
definition AEGIS_COMM_LEN :: nat where "AEGIS_COMM_LEN = 16"
definition AEGIS_PATH_LEN :: nat where "AEGIS_PATH_LEN = 256"
definition AEGIS_HASH_SIZE :: nat where "AEGIS_HASH_SIZE = 32"

lemmas aegis_consts =
  AEGIS_MAX_PROTECTED_PROCS_def AEGIS_MAX_PROTECTED_FILES_def AEGIS_MAX_BLOCKED_SYSCALLS_def
  AEGIS_COMM_LEN_def AEGIS_PATH_LEN_def AEGIS_HASH_SIZE_def

definition AEGIS_FEATURE_PROCESS_PROTECT :: "32 word" where
  "AEGIS_FEATURE_PROCESS_PROTECT = push_bit 0 1"
definition AEGIS_FEATURE_FILE_INTEGRITY :: "32 word" where
  "AEGIS_FEATURE_FILE_INTEGRITY = push_bit 1 1"
definition AEGIS_FEATURE_SYSCALL_AUDIT :: "32 word" where
  "AEGIS_FEATURE_SYSCALL_AUDIT = push_bit 2 1"
definition AEGIS_FEATURE_MODULE_CONTROL :: "32 word" where
  "AEGIS_FEATURE_MODULE_CONTROL = push_bit 3 1"
definition AEGIS_FEATURE_PTRACE_RESTRICT :: "32 word" where
  "AEGIS_FEATURE_PTRACE_RESTRICT = push_bit 4 1"
definition AEGIS_FEATURE_FULL_SHIELD :: "32 word" where
  "AEGIS_FEATURE_FULL_SHIELD = push_bit 5 1"

definition AEGIS_FEATURE_ALL :: "32 word" where
  "AEGIS_FEATURE_ALL =
     AEGIS_FEATURE_PROCESS_PROTECT OR AEGIS_FEATURE_FILE_INTEGRITY OR
     AEGIS_FEATURE_SYSCALL_AUDIT OR AEGIS_FEATURE_MODULE_CONTROL OR
     AEGIS_FEATURE_PTRACE_RESTRICT"

lemmas aegis_features =
  AEGIS_FEATURE_PROCESS_PROTECT_def AEGIS_FEATURE_FILE_INTEGRITY_def
  AEGIS_FEATURE_SYSCALL_AUDIT_def AEGIS_FEATURE_MODULE_CONTROL_def
  AEGIS_FEATURE_PTRACE_RESTRICT_def AEGIS_FEATURE_FULL_SHIELD_def AEGIS_FEATURE_ALL_def


section \<open>Structures\<close>

record aegis_config =
  enabled :: bool
  features :: "32 word"
  ptrace_restrict_all :: bool
  ptrace_scope :: int
  file_integrity_enforce :: bool
  file_integrity_log :: bool
  syscall_audit_enable :: bool
  syscall_deny_unlisted :: bool
  module_loading_denied :: bool
  module_force_loading :: bool
  ptrace_blocked :: "64 word"
  file_violations :: "64 word"
  syscall_violations :: "64 word"
  module_violations :: "64 word"
  total_events :: "64 word"

record aegis_protected_proc =
  pp_comm :: string
  pp_pid :: int

record aegis_protected_file =
  pf_path :: string
  pf_hash :: "8 word list"
  pf_hash_valid :: bool

record aegis_blocked_syscall =
  bs_syscall_nr :: int

text \<open>What the module reads of a \<open>task_struct\<close>: its own fields and its group leader's name.\<close>

record task_struct =
  task_comm :: string
  task_pid :: int
  task_leader_comm :: string

text \<open>
  The static variables: the three policy lists with their counters, the sysctl mirrors of
  \<^verbatim>\<open>aegis_sysctl.c\<close>, and the ring buffer.
\<close>

record aegis_state =
  aegis_cfg :: aegis_config
  protected_procs :: "aegis_protected_proc list"
  protected_proc_count :: int
  protected_files :: "aegis_protected_file list"
  protected_file_count :: int
  blocked_syscalls :: "aegis_blocked_syscall list"
  blocked_syscall_count :: int
  aegis_enabled :: int
  aegis_features_val :: int
  aegis_ptrace_restrict_all :: int
  aegis_file_integrity_enforce :: int
  aegis_file_integrity_log :: int
  aegis_module_loading_denied :: int
  aegis_syscall_audit_enable :: int
  aegis_sysctl_header :: bool
  klog :: "(loglevel \<times> string) list"


text \<open>The initialisers: \<open>aegis_cfg\<close> of \<^verbatim>\<open>aegis_lsm.c\<close> and the mirrors of \<^verbatim>\<open>aegis_sysctl.c\<close>.\<close>

definition aegis_cfg_init :: aegis_config where
  "aegis_cfg_init =
     \<lparr>enabled = True, features = AEGIS_FEATURE_ALL, ptrace_restrict_all = False,
      ptrace_scope = 1, file_integrity_enforce = True, file_integrity_log = True,
      syscall_audit_enable = True, syscall_deny_unlisted = False,
      module_loading_denied = False, module_force_loading = False,
      ptrace_blocked = 0, file_violations = 0, syscall_violations = 0,
      module_violations = 0, total_events = 0\<rparr>"

definition aegis_statics :: aegis_state where
  "aegis_statics =
     \<lparr>aegis_cfg = aegis_cfg_init,
      protected_procs = [], protected_proc_count = 0,
      protected_files = [], protected_file_count = 0,
      blocked_syscalls = [], blocked_syscall_count = 0,
      aegis_enabled = 1, aegis_features_val = sint AEGIS_FEATURE_ALL,
      aegis_ptrace_restrict_all = 0, aegis_file_integrity_enforce = 1,
      aegis_file_integrity_log = 1, aegis_module_loading_denied = 0,
      aegis_syscall_audit_enable = 1, aegis_sysctl_header = False, klog = []\<rparr>"


section \<open>Utility macros\<close>

definition AEGIS_FEATURE_CHECK :: "32 word \<Rightarrow> aegis_state \<Rightarrow> bool" where
  "AEGIS_FEATURE_CHECK feature s \<longleftrightarrow>
     enabled (aegis_cfg s) \<and> features (aegis_cfg s) AND feature \<noteq> 0"

text \<open>\<open>AEGIS_STAT_INC(counter)\<close>: the counter is named by its record update function.\<close>

definition AEGIS_STAT_INC ::
    "((64 word \<Rightarrow> 64 word) \<Rightarrow> aegis_config \<Rightarrow> aegis_config) \<Rightarrow> aegis_state \<Rightarrow> aegis_state" where
  "AEGIS_STAT_INC counter s = s\<lparr>aegis_cfg := counter (\<lambda>c. c + 1) (aegis_cfg s)\<rparr>"

definition AEGIS_LOG :: "loglevel \<Rightarrow> string \<Rightarrow> aegis_state \<Rightarrow> aegis_state" where
  "AEGIS_LOG level msg s = s\<lparr>klog := klog s @ [(level, ''aegis: '' @ msg @ [LF])]\<rparr>"

definition AEGIS_INFO :: "string \<Rightarrow> aegis_state \<Rightarrow> aegis_state" where
  "AEGIS_INFO = AEGIS_LOG KERN_INFO"

definition AEGIS_ERR :: "string \<Rightarrow> aegis_state \<Rightarrow> aegis_state" where
  "AEGIS_ERR = AEGIS_LOG KERN_ERR"

definition AEGIS_AUDIT :: "string \<Rightarrow> aegis_state \<Rightarrow> aegis_state" where
  "AEGIS_AUDIT = AEGIS_LOG KERN_WARNING"

lemmas aegis_log_defs = AEGIS_LOG_def AEGIS_INFO_def AEGIS_ERR_def AEGIS_AUDIT_def


section \<open>The policy of a state\<close>

text \<open>
  What the hooks decide on: everything but the statistics counters and the ring buffer. Two
  states carry the same policy when their policy parts are equal.
\<close>

definition cfg_policy :: "aegis_config \<Rightarrow> aegis_config" where
  "cfg_policy c =
     c\<lparr>ptrace_blocked := 0, file_violations := 0, syscall_violations := 0,
       module_violations := 0, total_events := 0\<rparr>"

definition policy_of :: "aegis_state \<Rightarrow> aegis_state" where
  "policy_of s = s\<lparr>aegis_cfg := cfg_policy (aegis_cfg s), klog := []\<rparr>"

text \<open>The three lists and their counters, the part the list operations work on.\<close>

definition lists_of where
  "lists_of s =
     ((protected_procs s, protected_proc_count s), (protected_files s, protected_file_count s),
      (blocked_syscalls s, blocked_syscall_count s))"

lemma policy_of_log [simp]:
  "policy_of (AEGIS_LOG l m s) = policy_of s"
  "policy_of (AEGIS_INFO m s) = policy_of s"
  "policy_of (AEGIS_ERR m s) = policy_of s"
  "policy_of (AEGIS_AUDIT m s) = policy_of s"
  by (simp_all add: policy_of_def aegis_log_defs)

lemma policy_of_stat [simp]:
  "policy_of (AEGIS_STAT_INC ptrace_blocked_update s) = policy_of s"
  "policy_of (AEGIS_STAT_INC file_violations_update s) = policy_of s"
  "policy_of (AEGIS_STAT_INC syscall_violations_update s) = policy_of s"
  "policy_of (AEGIS_STAT_INC module_violations_update s) = policy_of s"
  "policy_of (AEGIS_STAT_INC total_events_update s) = policy_of s"
  by (simp_all add: policy_of_def AEGIS_STAT_INC_def cfg_policy_def)

text \<open>Logging changes the ring buffer and nothing else; counting changes the configuration only.\<close>

lemma log_frame [simp]:
  "aegis_cfg (AEGIS_LOG l m s) = aegis_cfg s"
  "aegis_cfg (AEGIS_INFO m s) = aegis_cfg s"
  "aegis_cfg (AEGIS_ERR m s) = aegis_cfg s"
  "aegis_cfg (AEGIS_AUDIT m s) = aegis_cfg s"
  "lists_of (AEGIS_LOG l m s) = lists_of s"
  "lists_of (AEGIS_INFO m s) = lists_of s"
  "lists_of (AEGIS_ERR m s) = lists_of s"
  "lists_of (AEGIS_AUDIT m s) = lists_of s"
  by (simp_all add: aegis_log_defs lists_of_def)

lemma log_lists [simp]:
  "protected_procs (AEGIS_INFO m s) = protected_procs s"
  "protected_proc_count (AEGIS_INFO m s) = protected_proc_count s"
  "protected_files (AEGIS_INFO m s) = protected_files s"
  "protected_file_count (AEGIS_INFO m s) = protected_file_count s"
  "blocked_syscalls (AEGIS_INFO m s) = blocked_syscalls s"
  "blocked_syscall_count (AEGIS_INFO m s) = blocked_syscall_count s"
  by (simp_all add: aegis_log_defs)

lemma klog_log [simp]:
  "klog (AEGIS_LOG l m s) = klog s @ [(l, ''aegis: '' @ m @ [LF])]"
  "klog (AEGIS_INFO m s) = klog s @ [(KERN_INFO, ''aegis: '' @ m @ [LF])]"
  "klog (AEGIS_ERR m s) = klog s @ [(KERN_ERR, ''aegis: '' @ m @ [LF])]"
  "klog (AEGIS_AUDIT m s) = klog s @ [(KERN_WARNING, ''aegis: '' @ m @ [LF])]"
  by (simp_all add: aegis_log_defs)

lemma stat_frame [simp]:
  "klog (AEGIS_STAT_INC u s) = klog s"
  "lists_of (AEGIS_STAT_INC u s) = lists_of s"
  "aegis_cfg (AEGIS_STAT_INC u s) = u (\<lambda>c. c + 1) (aegis_cfg s)"
  by (simp_all add: AEGIS_STAT_INC_def lists_of_def)

text \<open>Facts of the policy part: equal policies agree on every field a hook reads.\<close>

lemma policy_of_eqD:
  assumes "policy_of s = policy_of t"
  shows "lists_of s = lists_of t" and "enabled (aegis_cfg s) = enabled (aegis_cfg t)"
    and "features (aegis_cfg s) = features (aegis_cfg t)"
    and "ptrace_restrict_all (aegis_cfg s) = ptrace_restrict_all (aegis_cfg t)"
    and "file_integrity_enforce (aegis_cfg s) = file_integrity_enforce (aegis_cfg t)"
    and "syscall_audit_enable (aegis_cfg s) = syscall_audit_enable (aegis_cfg t)"
    and "module_loading_denied (aegis_cfg s) = module_loading_denied (aegis_cfg t)"
proof -
  have "lists_of (policy_of s) = lists_of (policy_of t)"
    and "aegis_cfg (policy_of s) = aegis_cfg (policy_of t)"
    using assms by simp_all
  then have l: "lists_of s = lists_of t" and c: "cfg_policy (aegis_cfg s) = cfg_policy (aegis_cfg t)"
    by (simp_all add: policy_of_def lists_of_def)
  show "lists_of s = lists_of t" by (rule l)
  from c have "\<And>f. f (cfg_policy (aegis_cfg s)) = f (cfg_policy (aegis_cfg t))" by simp
  from this [of enabled] this [of features] this [of ptrace_restrict_all]
    this [of file_integrity_enforce] this [of syscall_audit_enable] this [of module_loading_denied]
  show "enabled (aegis_cfg s) = enabled (aegis_cfg t)"
    and "features (aegis_cfg s) = features (aegis_cfg t)"
    and "ptrace_restrict_all (aegis_cfg s) = ptrace_restrict_all (aegis_cfg t)"
    and "file_integrity_enforce (aegis_cfg s) = file_integrity_enforce (aegis_cfg t)"
    and "syscall_audit_enable (aegis_cfg s) = syscall_audit_enable (aegis_cfg t)"
    and "module_loading_denied (aegis_cfg s) = module_loading_denied (aegis_cfg t)"
    by (simp_all add: cfg_policy_def)
qed

lemma feature_check_log [simp]:
  "AEGIS_FEATURE_CHECK f (AEGIS_LOG l m s) = AEGIS_FEATURE_CHECK f s"
  "AEGIS_FEATURE_CHECK f (AEGIS_INFO m s) = AEGIS_FEATURE_CHECK f s"
  by (simp_all add: AEGIS_FEATURE_CHECK_def)

lemma feature_check_policy:
  "policy_of s = policy_of t \<Longrightarrow> AEGIS_FEATURE_CHECK f s = AEGIS_FEATURE_CHECK f t"
  using policy_of_eqD [of s t] by (simp add: AEGIS_FEATURE_CHECK_def)

text \<open>A single feature bit is set in \<open>AEGIS_FEATURE_ALL\<close> except the full shield.\<close>

lemma feature_all_bits:
  "AEGIS_FEATURE_ALL AND AEGIS_FEATURE_PROCESS_PROTECT \<noteq> 0"
  "AEGIS_FEATURE_ALL AND AEGIS_FEATURE_FILE_INTEGRITY \<noteq> 0"
  "AEGIS_FEATURE_ALL AND AEGIS_FEATURE_SYSCALL_AUDIT \<noteq> 0"
  "AEGIS_FEATURE_ALL AND AEGIS_FEATURE_MODULE_CONTROL \<noteq> 0"
  "AEGIS_FEATURE_ALL AND AEGIS_FEATURE_PTRACE_RESTRICT \<noteq> 0"
  "AEGIS_FEATURE_ALL AND AEGIS_FEATURE_FULL_SHIELD = 0"
  by (simp_all add: aegis_features)

lemma statics_fields [simp]:
  "protected_procs aegis_statics = []" "protected_proc_count aegis_statics = 0"
  "protected_files aegis_statics = []" "protected_file_count aegis_statics = 0"
  "blocked_syscalls aegis_statics = []" "blocked_syscall_count aegis_statics = 0"
  "aegis_cfg aegis_statics = aegis_cfg_init" "klog aegis_statics = []"
  by (simp_all add: aegis_statics_def)

lemma statics_features [simp]:
  "AEGIS_FEATURE_CHECK AEGIS_FEATURE_PROCESS_PROTECT aegis_statics"
  "AEGIS_FEATURE_CHECK AEGIS_FEATURE_FILE_INTEGRITY aegis_statics"
  "AEGIS_FEATURE_CHECK AEGIS_FEATURE_SYSCALL_AUDIT aegis_statics"
  "AEGIS_FEATURE_CHECK AEGIS_FEATURE_MODULE_CONTROL aegis_statics"
  "AEGIS_FEATURE_CHECK AEGIS_FEATURE_PTRACE_RESTRICT aegis_statics"
  by (simp_all add: AEGIS_FEATURE_CHECK_def aegis_statics_def aegis_cfg_init_def feature_all_bits)

end
