(* ===== verification/Aegisctl.thy ===== *)
theory Aegisctl
  imports Aegis_State
begin

text \<open>
  The userspace control tool, \<^verbatim>\<open>devkit/src/aegisctl.c\<close>. The operating system below it
  is a record of the calls the tool makes over a world it does not look into; a call that
  never returns is \<open>None\<close>. A function of the tool takes the world and the text printed so
  far and returns both updated. Command line arguments are C strings without their
  terminators. The last section says which lines of the log the audit command selects.
\<close>

section \<open>The operating system calls\<close>

datatype open_mode = O_RDONLY | O_WRONLY

record 'w os =
  os_open :: "string \<Rightarrow> open_mode \<Rightarrow> 'w \<Rightarrow> (errno + nat) \<times> 'w"
  os_read :: "nat \<Rightarrow> nat \<Rightarrow> 'w \<Rightarrow> (errno + string) \<times> 'w"
  os_write :: "nat \<Rightarrow> string \<Rightarrow> 'w \<Rightarrow> ((errno + nat) \<times> 'w) option"
  os_close :: "nat \<Rightarrow> 'w \<Rightarrow> 'w"
  os_klogctl :: "nat \<Rightarrow> 'w \<Rightarrow> (errno + string) \<times> 'w"
  os_malloc :: bool
  os_strerror :: "errno \<Rightarrow> string"

definition AEGIS_SECURITYFS :: string where "AEGIS_SECURITYFS = ''/sys/kernel/security/aegis''"
definition AEGIS_SYSCTL :: string where "AEGIS_SYSCTL = ''/proc/sys/kernel/aegis''"
definition MAX_BUF :: nat where "MAX_BUF = 4096"

text \<open>The UTF-8 bytes of the signs the tool prints.\<close>

definition CROSS :: string where "CROSS = [CHR 0xE2, CHR 0x9D, CHR 0x8C]"
definition TICK :: string where "TICK = [CHR 0xE2, CHR 0x9C, CHR 0x85]"
definition WARN :: string where
  "WARN = [CHR 0xE2, CHR 0x9A, CHR 0xA0, CHR 0xEF, CHR 0xB8, CHR 0x8F]"

definition bar :: "nat \<Rightarrow> string" where
  "bar n = concat (replicate n [CHR 0xE2, CHR 0x95, CHR 0x90])"

definition box_top :: "nat \<Rightarrow> string" where
  "box_top n = [CHR 0xE2, CHR 0x95, CHR 0x94] @ bar n @ [CHR 0xE2, CHR 0x95, CHR 0x97, LF]"

definition box_bottom :: "nat \<Rightarrow> string" where
  "box_bottom n = [CHR 0xE2, CHR 0x95, CHR 0x9A] @ bar n @ [CHR 0xE2, CHR 0x95, CHR 0x9D, LF, LF]"

definition box_side :: string where "box_side = [CHR 0xE2, CHR 0x95, CHR 0x91]"


section \<open>Write commands\<close>

definition write_secfs ::
    "'w os \<Rightarrow> string \<Rightarrow> string \<Rightarrow> 'w \<times> string \<Rightarrow> (int \<times> 'w \<times> string) option" where
  "write_secfs os file value x =
     (let path = take 511 (AEGIS_SECURITYFS @ ''/'' @ file); (w, out) = x in
      case os_open os path O_WRONLY w of
        (Inl e, w1) \<Rightarrow>
          Some (-1, w1, out @ CROSS @ '' '' @ path @ '': '' @ os_strerror os e @ [LF] @
            ''   (need root + AEGIS loaded)'' @ [LF])
      | (Inr fd, w1) \<Rightarrow>
          (case os_write os fd value w1 of
             None \<Rightarrow> None
           | Some (Inl e, w2) \<Rightarrow>
               Some (-1, os_close os fd w2,
                 out @ CROSS @ '' write '' @ path @ '': '' @ os_strerror os e @ [LF])
           | Some (Inr n, w2) \<Rightarrow>
               Some (0, os_close os fd w2, out @ TICK @ '' '' @ file @ '' <- '' @ value @ [LF])))"

record cmd =
  cmd_name :: string
  cmd_endpoint :: string
  cmd_usage :: string

definition write_cmds :: "cmd list" where
  "write_cmds =
     [\<lparr>cmd_name = ''file-add'', cmd_endpoint = ''protected_files_add'',
       cmd_usage = ''file-add <path>       protect a file (deny writes)''\<rparr>,
      \<lparr>cmd_name = ''file-del'', cmd_endpoint = ''protected_files_del'',
       cmd_usage = ''file-del <path>       unprotect a file''\<rparr>,
      \<lparr>cmd_name = ''proc-add'', cmd_endpoint = ''protected_procs_add'',
       cmd_usage = ''proc-add <comm> [pid] protect a process name (optionally one pid)''\<rparr>,
      \<lparr>cmd_name = ''proc-del'', cmd_endpoint = ''protected_procs_del'',
       cmd_usage = ''proc-del <comm> [pid] unprotect a process''\<rparr>,
      \<lparr>cmd_name = ''syscall-add'', cmd_endpoint = ''blocked_syscalls_add'',
       cmd_usage = ''syscall-add <nr>      block a syscall number''\<rparr>,
      \<lparr>cmd_name = ''syscall-del'', cmd_endpoint = ''blocked_syscalls_del'',
       cmd_usage = ''syscall-del <nr>      unblock a syscall number''\<rparr>]"

text \<open>The search loop of \<open>cmd_write\<close> over the remaining table entries.\<close>

fun cmd_write_loop ::
    "'w os \<Rightarrow> string list \<Rightarrow> cmd list \<Rightarrow> 'w \<times> string \<Rightarrow> ('w \<times> string) option" where
  "cmd_write_loop os argv [] (w, out) = Some (w, out @ ''unknown command: '' @ argv ! 1 @ [LF])"
| "cmd_write_loop os argv (c # cs) x =
     (if argv ! 1 = cmd_name c
      then map_option snd (write_secfs os (cmd_endpoint c) (argv ! 2) x)
      else cmd_write_loop os argv cs x)"

definition cmd_write :: "'w os \<Rightarrow> string list \<Rightarrow> 'w \<times> string \<Rightarrow> ('w \<times> string) option" where
  "cmd_write os argv x =
     (if length argv < 3
      then Some (fst x, snd x @ ''usage: aegisctl <command> <arg>'' @ [LF, LF] @ ''Write commands:'' @ [LF] @
             concat (map (\<lambda>c. ''  '' @ cmd_usage c @ [LF]) write_cmds))
      else cmd_write_loop os argv write_cmds x)"


section \<open>Listing and switching commands\<close>

definition print_file :: "'w os \<Rightarrow> string \<Rightarrow> 'w \<times> string \<Rightarrow> 'w \<times> string" where
  "print_file os path x =
     (let (w, out) = x in
      case os_open os path O_RDONLY w of
        (Inl e, w1) \<Rightarrow> (w1, out @ ''  '' @ CROSS @ '' Cannot open '' @ path @ '': '' @ os_strerror os e @ [LF])
      | (Inr fd, w1) \<Rightarrow>
          (case os_read os fd (MAX_BUF - 1) w1 of
             (Inr (b # bs), w2) \<Rightarrow> (os_close os fd w2, out @ cstr (b # bs))
           | (_, w2) \<Rightarrow> (os_close os fd w2, out @ ''  (empty)'' @ [LF])))"

definition write_sysctl ::
    "'w os \<Rightarrow> string \<Rightarrow> string \<Rightarrow> 'w \<times> string \<Rightarrow> (int \<times> 'w \<times> string) option" where
  "write_sysctl os key value x =
     (let path = take 255 (AEGIS_SYSCTL @ ''/'' @ key); (w, out) = x in
      case os_open os path O_WRONLY w of
        (Inl e, w1) \<Rightarrow>
          Some (-1, w1, out @ CROSS @ '' Cannot open '' @ path @ '': '' @ os_strerror os e @ [LF])
      | (Inr fd, w1) \<Rightarrow>
          (case os_write os fd value w1 of
             None \<Rightarrow> None
           | Some (Inl e, w2) \<Rightarrow>
               Some (-1, os_close os fd w2,
                 out @ CROSS @ '' Cannot write to '' @ path @ '': '' @ os_strerror os e @ [LF])
           | Some (Inr n, w2) \<Rightarrow>
               Some (0, os_close os fd w2, out @ TICK @ '' '' @ key @ '' = '' @ value @ [LF])))"

text \<open>The titled listing five commands share, each with its title line and its file.\<close>

definition titled :: "'w os \<Rightarrow> string \<Rightarrow> string \<Rightarrow> 'w \<times> string \<Rightarrow> 'w \<times> string" where
  "titled os title file x =
     print_file os (AEGIS_SECURITYFS @ ''/'' @ file)
       (fst x, snd x @ [LF] @ box_top 42 @ box_side @ pad_right 42 (''     '' @ title) @ box_side @ [LF] @
          box_bottom 42)"

definition cmd_status :: "'w os \<Rightarrow> 'w \<times> string \<Rightarrow> 'w \<times> string" where
  "cmd_status os = titled os ''AEGIS Security Module Status'' ''status''"

definition cmd_stats :: "'w os \<Rightarrow> 'w \<times> string \<Rightarrow> 'w \<times> string" where
  "cmd_stats os = titled os ''AEGIS Event Statistics'' ''stats''"

definition cmd_procs :: "'w os \<Rightarrow> 'w \<times> string \<Rightarrow> 'w \<times> string" where
  "cmd_procs os = titled os ''AEGIS Protected Processes'' ''protected_procs''"

definition cmd_files :: "'w os \<Rightarrow> 'w \<times> string \<Rightarrow> 'w \<times> string" where
  "cmd_files os = titled os ''AEGIS Protected Files'' ''protected_files''"

definition cmd_symlist :: "'w os \<Rightarrow> 'w \<times> string \<Rightarrow> 'w \<times> string" where
  "cmd_symlist os = titled os ''AEGIS Blocked Syscalls'' ''blocked_syscalls''"

definition cmd_enable :: "'w os \<Rightarrow> 'w \<times> string \<Rightarrow> ('w \<times> string) option" where
  "cmd_enable os x =
     map_option snd (write_sysctl os ''enabled'' ''1'' (fst x, snd x @ ''Enabling AEGIS...'' @ [LF]))"

definition cmd_disable :: "'w os \<Rightarrow> 'w \<times> string \<Rightarrow> ('w \<times> string) option" where
  "cmd_disable os x =
     map_option snd (write_sysctl os ''enabled'' ''0''
       (fst x, snd x @ WARN @ ''  Disabling AEGIS (requires reboot to fully re-enable)...'' @ [LF]))"

section \<open>The audit command\<close>

text \<open>\<open>strstr\<close>: the rest of the string from the first occurrence on.\<close>

fun strstr :: "string \<Rightarrow> string \<Rightarrow> string option" where
  "strstr needle [] = (if needle = [] then Some [] else None)"
| "strstr needle (c # cs) =
     (if take (length needle) (c # cs) = needle then Some (c # cs) else strstr needle cs)"

definition audit_tag :: string where "audit_tag = ''aegis:''"

lemma strstr_Some:
  "strstr needle s = Some r \<Longrightarrow> length r \<le> length s \<and> take (length needle) r = needle"
  by (induction s) (auto split: if_splits)

lemma audit_tag_nonempty [simp]: "audit_tag \<noteq> []"
  by (simp add: audit_tag_def)

text \<open>The counting loop of \<open>cmd_audit\<close>: from each hit the search goes on one byte further.\<close>

function count_tags :: "string \<Rightarrow> nat" where
  "count_tags s = (case strstr audit_tag s of None \<Rightarrow> 0 | Some r \<Rightarrow> Suc (count_tags (tl r)))"
  by pat_completeness auto
termination
proof (relation "measure length")
  fix s r :: string
  assume "strstr audit_tag s = Some r"
  from strstr_Some [OF this] have "length r \<le> length s" "r \<noteq> []"
    by (simp, metis audit_tag_nonempty take_Nil)
  then show "(tl r, s) \<in> measure length" by (cases r) auto
qed simp

declare count_tags.simps [simp del]

text \<open>\<open>strtok_r\<close> with a line feed: the non-empty lines.\<close>

function strtok_lines :: "string \<Rightarrow> string list" where
  "strtok_lines s =
     (let s1 = dropWhile (\<lambda>c. c = LF) s in
      if s1 = [] then []
      else takeWhile (\<lambda>c. c \<noteq> LF) s1 # strtok_lines (tl (dropWhile (\<lambda>c. c \<noteq> LF) s1)))"
  by pat_completeness auto
termination
proof (relation "measure length")
  fix s s1 :: string
  assume s1: "s1 = dropWhile (\<lambda>c. c = LF) s" and ne: "s1 \<noteq> []"
  have "length (tl (dropWhile (\<lambda>c. c \<noteq> LF) s1)) \<le> length s1 - 1"
    using length_dropWhile_le [of "\<lambda>c. c \<noteq> LF" s1] unfolding length_tl by (rule diff_le_mono)
  with ne have "length (tl (dropWhile (\<lambda>c. c \<noteq> LF) s1)) < length s1"
    using length_greater_0_conv [of s1] by linarith
  moreover have "length s1 \<le> length s" unfolding s1 by (rule length_dropWhile_le)
  ultimately show "(tl (dropWhile (\<lambda>c. c \<noteq> LF) s1), s) \<in> measure length" by simp
qed simp

declare strtok_lines.simps [simp del]

text \<open>The printing loop: \<open>idx\<close> counts the tagged lines met, \<open>shown\<close> those printed.\<close>

fun audit_loop :: "nat \<Rightarrow> nat \<Rightarrow> string list \<Rightarrow> nat \<times> string \<Rightarrow> nat \<times> string" where
  "audit_loop skip idx [] (shown, out) = (shown, out)"
| "audit_loop skip idx (line # ls) (shown, out) =
     (case strstr audit_tag line of
        None \<Rightarrow> audit_loop skip idx ls (shown, out)
      | Some tag \<Rightarrow>
          if idx < skip then audit_loop skip (Suc idx) ls (shown, out)
          else audit_loop skip (Suc idx) ls (Suc shown, out @ ''  '' @ tag @ [LF]))"

text \<open>\<open>atoi\<close>: \<open>strtol\<close> in base 10, clamped to 64 bits, cut to \<open>int\<close>.\<close>

definition atoi :: "string \<Rightarrow> int" where
  "atoi s =
     (let s1 = skip_spaces s;
          neg = (cbyte s1 = CHR ''-'');
          s2 = (if neg \<or> cbyte s1 = CHR ''+'' then tl s1 else s1);
          v = int (fst (scan_digits 0 s2));
          l = max (- (2 ^ 63)) (min (2 ^ 63 - 1) (if neg then - v else v))
      in to_int32 l)"

definition AUDIT_BUF_SIZE :: nat where "AUDIT_BUF_SIZE = 256 * 1024"

definition cmd_audit :: "'w os \<Rightarrow> string list \<Rightarrow> 'w \<times> string \<Rightarrow> 'w \<times> string" where
  "cmd_audit os argv x =
     (let (w, out) = x; want = (if 3 \<le> length argv then atoi (argv ! 2) else 20) in
      if want \<le> 0
      then (w, out @ ''usage: aegisctl audit [N]  (N = number of events, default 20)'' @ [LF])
      else if \<not> os_malloc os then (w, out @ CROSS @ '' out of memory'' @ [LF])
      else
        case os_klogctl os (AUDIT_BUF_SIZE - 1) w of
          (Inl e, w1) \<Rightarrow>
            (w1, out @ CROSS @ '' cannot read kernel log: '' @ os_strerror os e @ [LF] @
               ''   (need root, or dmesg_restrict=0)'' @ [LF])
        | (Inr bytes, w1) \<Rightarrow>
            let buf = cstr bytes;
                total = count_tags buf;
                out1 = out @ [LF] @ box_top 42 @ box_side @ ''     AEGIS Audit Log (last '' @
                  fmt_d want @ '' events)      '' @ [LF] @ box_bottom 42
            in if total = 0
               then (w1, out1 @ ''  (no AEGIS events in the kernel ring buffer)'' @ [LF, LF])
               else
                 let skip = (if want < int total then total - nat want else 0);
                     (shown, out2) = audit_loop skip 0 (strtok_lines buf) (0, out1)
                 in (w1, out2 @ [LF] @ ''  '' @ fmt_d (int shown) @ '' of '' @ fmt_d (int total) @
                      '' AEGIS events shown'' @ [LF, LF]))"


section \<open>Help and dispatch\<close>

definition cmd_help :: "'w \<times> string \<Rightarrow> 'w \<times> string" where
  "cmd_help x =
     (fst x, snd x @ [LF] @ box_top 50 @
      box_side @ pad_right 49 ''         AEGIS Control Tool v1.0.0'' @ box_side @ [LF] @
      box_side @ pad_right 49 ''     Advanced Guardian for Integrated System'' @ box_side @ [LF] @
      box_side @ pad_right 49 ''                Security'' @ box_side @ [LF] @
      box_bottom 50 @
      ''Usage: aegisctl <command>'' @ [LF, LF] @
      ''Commands:'' @ [LF] @
      ''  status        Show AEGIS status and configuration'' @ [LF] @
      ''  stats         Show event statistics'' @ [LF] @
      ''  procs         Show protected processes list'' @ [LF] @
      ''  files         Show protected files list'' @ [LF] @
      ''  symlist       Show blocked syscalls list'' @ [LF] @
      ''  audit [N]     Show last N AEGIS events from kernel log (default 20)'' @ [LF] @
      ''  enable        Enable AEGIS (via sysctl)'' @ [LF] @
      ''  disable       Disable AEGIS (via sysctl)'' @ [LF] @
      ''  file-add      Protect a file:           aegisctl file-add /etc/passwd'' @ [LF] @
      ''  file-del      Unprotect a file:         aegisctl file-del /etc/passwd'' @ [LF] @
      ''  proc-add      Protect a process:        aegisctl proc-add sshd'' @ [LF] @
      ''  proc-del      Unprotect a process:      aegisctl proc-del sshd'' @ [LF] @
      ''  syscall-add   Block a syscall:          aegisctl syscall-add 101'' @ [LF] @
      ''  syscall-del   Unblock a syscall:        aegisctl syscall-del 101'' @ [LF] @
      ''  help          Show this help message'' @ [LF, LF] @
      ''Files:'' @ [LF] @
      ''  /sys/kernel/security/aegis/status'' @ [LF] @
      ''  /sys/kernel/security/aegis/stats'' @ [LF] @
      ''  /sys/kernel/security/aegis/protected_procs'' @ [LF] @
      ''  /sys/kernel/security/aegis/protected_files'' @ [LF] @
      ''  /sys/kernel/security/aegis/blocked_syscalls'' @ [LF] @
      ''  /proc/sys/kernel/aegis/enabled'' @ [LF] @
      ''  /proc/sys/kernel/aegis/features'' @ [LF, LF])"

definition aegisctl_main ::
    "'w os \<Rightarrow> string list \<Rightarrow> 'w \<times> string \<Rightarrow> (int \<times> 'w \<times> string) option" where
  "aegisctl_main os argv x =
     (if length argv < 2 then Some (0, cmd_help x)
      else if argv ! 1 = ''status'' then Some (0, cmd_status os x)
      else if argv ! 1 = ''stats'' then Some (0, cmd_stats os x)
      else if argv ! 1 = ''procs'' then Some (0, cmd_procs os x)
      else if argv ! 1 = ''files'' then Some (0, cmd_files os x)
      else if argv ! 1 = ''symlist'' then Some (0, cmd_symlist os x)
      else if argv ! 1 = ''audit'' then Some (0, cmd_audit os argv x)
      else if argv ! 1 = ''enable'' then map_option (Pair 0) (cmd_enable os x)
      else if argv ! 1 = ''disable'' then map_option (Pair 0) (cmd_disable os x)
      else if argv ! 1 \<in> {''file-add'', ''file-del'', ''proc-add'', ''proc-del'', ''syscall-add'',
                ''syscall-del''}
      then map_option (Pair 0) (cmd_write os argv x)
      else if argv ! 1 = ''help'' \<or> argv ! 1 = ''--help'' then Some (0, cmd_help x)
      else Some (1, fst x, snd x @ ''Unknown command: '' @ argv ! 1 @ [LF] @
             ''Try '' @ [CHR 0x27] @ ''aegisctl help'' @ [CHR 0x27] @ '' for usage.'' @ [LF]))"

section \<open>What the audit command prints\<close>

text \<open>The tagged lines, each from its tag on.\<close>

definition tagged :: "string list \<Rightarrow> string list" where
  "tagged ls = List.map_filter (strstr audit_tag) ls"

lemma tagged_simps [simp]:
  "tagged [] = []"
  "tagged (l # ls) = (case strstr audit_tag l of None \<Rightarrow> tagged ls | Some t \<Rightarrow> t # tagged ls)"
  by (simp_all add: tagged_def map_filter_simps split: option.split)

lemma audit_loop_result:
  "audit_loop skip idx ls (shown, out) =
     (shown + length (drop (skip - idx) (tagged ls)),
      out @ concat (map (\<lambda>t. ''  '' @ t @ [LF]) (drop (skip - idx) (tagged ls))))"
proof (induction skip idx ls "(shown, out)" arbitrary: shown out rule: audit_loop.induct)
  case (1 skip idx)
  then show ?case by simp
next
  case (2 skip idx line ls)
  show ?case
  proof (cases "strstr audit_tag line")
    case None
    with 2(1) show ?thesis by simp
  next
    case (Some t)
    show ?thesis
    proof (cases "idx < skip")
      case True
      then have "skip - idx = Suc (skip - Suc idx)" by simp
      with Some True 2(2) [OF Some True] show ?thesis by simp
    next
      case False
      with Some 2(3) [OF Some False] show ?thesis by simp
    qed
  qed
qed

text \<open>The number of positions at which the tag occurs, which is what the counting loop counts.\<close>

fun occurrences :: "string \<Rightarrow> nat" where
  "occurrences [] = 0"
| "occurrences (c # cs) = (if take 6 (c # cs) = audit_tag then 1 else 0) + occurrences cs"

lemma length_audit_tag: "length audit_tag = 6"
  by (simp add: audit_tag_def)

lemma strstr_occurrences:
  "(case strstr audit_tag s of None \<Rightarrow> occurrences s = 0
    | Some r \<Rightarrow> occurrences s = Suc (occurrences (tl r)))"
  by (induction s) (auto simp: length_audit_tag split: option.splits)

lemma count_tags_occurrences: "count_tags s = occurrences s"
proof (induction s rule: count_tags.induct)
  case (1 s)
  show ?case
    using 1 strstr_occurrences [of s]
    by (subst count_tags.simps) (auto split: option.splits)
qed

text \<open>No occurrence crosses a line end, so occurrences are counted line by line.\<close>

lemma tag_before_LF: "take 6 (a @ LF # b) = audit_tag \<longleftrightarrow> take 6 a = audit_tag"
proof
  assume t: "take 6 (a @ LF # b) = audit_tag"
  have "\<not> length a < 6"
  proof
    assume "length a < 6"
    then have "LF \<in> set (take 6 (a @ LF # b))" by (simp add: take_Cons')
    then show False unfolding t by (simp add: audit_tag_def)
  qed
  with t show "take 6 a = audit_tag" by simp
next
  assume t: "take 6 a = audit_tag"
  then have "6 \<le> length a" using length_audit_tag by (metis length_take min.cobounded1)
  with t show "take 6 (a @ LF # b) = audit_tag" by simp
qed

lemma occurrences_LF: "occurrences (a @ LF # b) = occurrences a + occurrences b"
proof (induction a)
  case Nil
  then show ?case using tag_before_LF [of "[]" b] by (simp add: audit_tag_def)
next
  case (Cons c a)
  then show ?case using tag_before_LF [of "c # a" b] by simp
qed

lemma occurrences_dropLF: "occurrences (dropWhile (\<lambda>c. c = LF) s) = occurrences s"
proof (induction s)
  case Nil
  then show ?case by simp
next
  case (Cons c s)
  then show ?case by (simp add: audit_tag_def)
qed

lemma occurrences_lines: "occurrences s = sum_list (map occurrences (strtok_lines s))"
proof (induction s rule: strtok_lines.induct)
  case (1 s)
  let ?s = "dropWhile (\<lambda>c. c = LF) s"
  let ?tok = "takeWhile (\<lambda>c. c \<noteq> LF) ?s" and ?rest = "dropWhile (\<lambda>c. c \<noteq> LF) ?s"
  show ?case
  proof (cases "?s = []")
    case True
    then have "strtok_lines s = []" by (subst strtok_lines.simps) simp
    moreover have "occurrences s = occurrences []"
      using occurrences_dropLF [of s] unfolding True by simp
    ultimately show ?thesis by simp
  next
    case False
    have IH: "occurrences (tl ?rest) = sum_list (map occurrences (strtok_lines (tl ?rest)))"
      using 1 [OF refl False] .
    have "occurrences ?s = occurrences ?tok + occurrences (tl ?rest)"
    proof (cases ?rest)
      case Nil
      have "?tok @ ?rest = ?s" by (rule takeWhile_dropWhile_id)
      then have tok: "?tok = ?s" unfolding Nil append_Nil2 .
      show ?thesis unfolding Nil tok by simp
    next
      case (Cons x xs)
      then have "x = LF" using hd_dropWhile [of "\<lambda>c. c \<noteq> LF" ?s] by simp
      then have "?s = ?tok @ LF # xs" using takeWhile_dropWhile_id [of "\<lambda>c. c \<noteq> LF" ?s] Cons by simp
      then have "occurrences ?s = occurrences (?tok @ LF # xs)" by (rule arg_cong)
      with Cons show ?thesis by (simp only: occurrences_LF list.sel)
    qed
    moreover have eq: "strtok_lines s = ?tok # strtok_lines (tl ?rest)"
      using False by (subst strtok_lines.simps) (simp only: Let_def if_False)
    ultimately show ?thesis
      unfolding eq list.map sum_list.Cons IH [symmetric] by (simp only: occurrences_dropLF)
  qed
qed

lemma tagged_iff: "strstr audit_tag l = None \<longleftrightarrow> occurrences l = 0"
  using strstr_occurrences [of l] by (cases "strstr audit_tag l") auto

lemma tagged_le: "length (tagged ls) \<le> sum_list (map occurrences ls)"
proof (induction ls)
  case Nil
  then show ?case by simp
next
  case (Cons l ls)
  then show ?case using tagged_iff [of l] by (auto split: option.split)
qed

lemma tagged_eq:
  "\<forall>l\<in>set ls. occurrences l \<le> 1 \<Longrightarrow> length (tagged ls) = sum_list (map occurrences ls)"
proof (induction ls)
  case Nil
  then show ?case by simp
next
  case (Cons l ls)
  then show ?case using tagged_iff [of l] by (cases "occurrences l") (auto split: option.split)
qed

end
