(* ===== verification/Aegis_Registry.thy ===== *)
theory Aegis_Registry
  imports Aegis_State
begin

text \<open>
  The contract the three policy lists share. Each of \<^verbatim>\<open>aegis_process.c\<close>,
  \<^verbatim>\<open>aegis_file.c\<close> and \<^verbatim>\<open>aegis_audit.c\<close> keeps a bounded linked list with a
  counter and changes it in critical sections under its own spinlock: a check section
  (capacity, duplicates), a commit section (append, count) and a removal section. The locale
  \<open>policy_list\<close> states what these sections promise; what follows from it is proved once:
  the list invariant, the refinement to a bounded set of keys, add/remove round trips, and
  what is left of the invariant when several writers interleave their sections.
\<close>

section \<open>The invariant of a policy list\<close>

definition reg_wf :: "nat \<Rightarrow> ('e \<Rightarrow> bool) \<Rightarrow> ('e \<Rightarrow> 'k) \<Rightarrow> 'e list \<Rightarrow> int \<Rightarrow> bool" where
  "reg_wf cap wfe key es n \<longleftrightarrow>
     n = int (length es) \<and> length es \<le> cap \<and> list_all wfe es \<and> distinct (map key es)"

lemma reg_wf_Nil [simp]: "reg_wf cap wfe key [] 0"
  by (simp add: reg_wf_def)


section \<open>The abstract list: a bounded set of keys\<close>

text \<open>
  What a policy list is to its users: a set of at most \<open>cap\<close> keys. Addition answers
  \<open>-ENOSPC\<close> on a full set before it answers \<open>-EEXIST\<close>; removal of an absent key is
  \<open>-ENOENT\<close>.
\<close>

definition bset_add :: "nat \<Rightarrow> 'k \<Rightarrow> 'k set \<Rightarrow> cret \<times> 'k set" where
  "bset_add cap k ks =
     (if cap \<le> card ks then (Inl ENOSPC, ks)
      else if k \<in> ks then (Inl EEXIST, ks)
      else (ret0, insert k ks))"

text \<open>Addition when memory may run out: the allocation comes after the two checks.\<close>

definition bset_insert :: "bool \<Rightarrow> nat \<Rightarrow> 'k \<Rightarrow> 'k set \<Rightarrow> cret \<times> 'k set" where
  "bset_insert kmalloc cap k ks =
     (if fst (bset_add cap k ks) = ret0 \<and> \<not> kmalloc then (Inl ENOMEM, ks)
      else bset_add cap k ks)"

definition bset_del :: "'k \<Rightarrow> 'k set \<Rightarrow> cret \<times> 'k set" where
  "bset_del k ks = (if k \<in> ks then (ret0, ks - {k}) else (Inl ENOENT, ks))"


section \<open>Interleaved critical sections\<close>

text \<open>
  A writer that has passed the check section and not yet reached its commit section holds a
  freshly built entry. The race relation interleaves the sections of at most \<open>N\<close>
  writers and any number of removals; \<open>ps\<close> lists the entries in flight.
\<close>

inductive race_step ::
  "('k \<Rightarrow> 's \<Rightarrow> cret) \<Rightarrow> ('k \<Rightarrow> 'e \<Rightarrow> bool) \<Rightarrow> ('e \<Rightarrow> 's \<Rightarrow> 's) \<Rightarrow> ('k \<Rightarrow> 's \<Rightarrow> cret \<times> 's) \<Rightarrow>
   nat \<Rightarrow> 's \<times> 'e list \<Rightarrow> 's \<times> 'e list \<Rightarrow> bool"
  for check built commit del N where
  check_section:
    "check k s = ret0 \<Longrightarrow> built k e \<Longrightarrow> length ps < N \<Longrightarrow>
     race_step check built commit del N (s, ps) (s, e # ps)"
| commit_section:
    "e \<in> set ps \<Longrightarrow>
     race_step check built commit del N (s, ps) (commit e s, remove1 e ps)"
| del_section:
    "race_step check built commit del N (s, ps) (snd (del k s), ps)"

inductive race_run ::
  "('k \<Rightarrow> 's \<Rightarrow> cret) \<Rightarrow> ('k \<Rightarrow> 'e \<Rightarrow> bool) \<Rightarrow> ('e \<Rightarrow> 's \<Rightarrow> 's) \<Rightarrow> ('k \<Rightarrow> 's \<Rightarrow> cret \<times> 's) \<Rightarrow>
   nat \<Rightarrow> 's \<Rightarrow> 's \<times> 'e list \<Rightarrow> bool"
  for check built commit del N s0 where
  race_start: "race_run check built commit del N s0 (s0, [])"
| race_next: "race_run check built commit del N s0 x \<Longrightarrow> race_step check built commit del N x y \<Longrightarrow>
     race_run check built commit del N s0 y"

inductive_cases race_stepE: "race_step check built commit del N (s, ps) (t, qs)"


section \<open>The contract\<close>

locale policy_list =
  fixes entries :: "'s \<Rightarrow> 'e list"
    and count :: "'s \<Rightarrow> int"
    and cap :: nat
    and hit :: "'k \<Rightarrow> 'e \<Rightarrow> bool"
    and check :: "'k \<Rightarrow> 's \<Rightarrow> cret"
    and built :: "'k \<Rightarrow> 'e \<Rightarrow> bool"
    and commit :: "'e \<Rightarrow> 's \<Rightarrow> 's"
    and del :: "'k \<Rightarrow> 's \<Rightarrow> cret \<times> 's"
    and key :: "'e \<Rightarrow> 'k"
    and norm :: "'k \<Rightarrow> 'k"
    and valid :: "'k \<Rightarrow> bool"
    and wfe :: "'e \<Rightarrow> bool"
  assumes check_eq: "check k s =
      (if int cap \<le> count s then Inl ENOSPC
       else if list_ex (hit k) (entries s) then Inl EEXIST else ret0)"
    and entries_commit: "entries (commit e s) = entries s @ [e]"
    and count_commit: "count (commit e s) = count s + 1"
    and del_hit: "del_first (hit k) (entries s) = Some es \<Longrightarrow>
      fst (del k s) = ret0 \<and> entries (snd (del k s)) = es \<and> count (snd (del k s)) = count s - 1"
    and del_miss: "\<not> list_ex (hit k) (entries s) \<Longrightarrow> del k s = (Inl ENOENT, s)"
    and hit_key: "wfe e \<Longrightarrow> hit k e \<longleftrightarrow> key e = norm k"
    and built_wfe: "built k e \<Longrightarrow> wfe e"
    and built_key: "built k e \<Longrightarrow> valid k \<Longrightarrow> key e = norm k"
begin

lemma check_ok_iff:
  "check k s = ret0 \<longleftrightarrow> count s < int cap \<and> \<not> list_ex (hit k) (entries s)"
  by (auto simp: check_eq)

lemma hit_iff_key:
  "list_all wfe es \<Longrightarrow> list_ex (hit k) es \<longleftrightarrow> norm k \<in> key ` set es"
  by (induction es) (auto simp: hit_key)

text \<open>A check that passes, then the commit of the entry built for the same key.\<close>

lemma commit_wf:
  assumes "reg_wf cap wfe key (entries s) (count s)" "check k s = ret0" "built k e" "valid k"
  shows "reg_wf cap wfe key (entries (commit e s)) (count (commit e s))"
  using assms hit_iff_key [of "entries s" k] built_key [of k e] built_wfe [of k e]
  by (auto simp: reg_wf_def entries_commit count_commit check_ok_iff list_all_append)

lemma del_cases:
  obtains (miss) "\<not> list_ex (hit k) (entries s)" "del k s = (Inl ENOENT, s)"
  | (found) us x vs where "entries s = us @ x # vs" "hit k x" "\<not> list_ex (hit k) us"
      "fst (del k s) = ret0" "entries (snd (del k s)) = us @ vs"
      "count (snd (del k s)) = count s - 1"
proof (cases "del_first (hit k) (entries s)")
  case None
  then show ?thesis using miss del_miss by simp
next
  case (Some es)
  from del_first_Some [OF Some] obtain us x vs
    where "entries s = us @ x # vs" "es = us @ vs" "hit k x" "\<not> list_ex (hit k) us" by blast
  with found del_hit [OF Some] show ?thesis by metis
qed

lemma del_wf:
  assumes "reg_wf cap wfe key (entries s) (count s)"
  shows "reg_wf cap wfe key (entries (snd (del k s))) (count (snd (del k s)))"
  by (cases k s rule: del_cases) (use assms in \<open>auto simp: reg_wf_def\<close>)

text \<open>The list as a set of keys: what the sections do to it.\<close>

lemma keys_commit: "key ` set (entries (commit e s)) = insert (key e) (key ` set (entries s))"
  by (auto simp: entries_commit)

lemma keys_del:
  assumes "reg_wf cap wfe key (entries s) (count s)"
  shows "key ` set (entries (snd (del k s))) = key ` set (entries s) - {norm k}"
proof (cases k s rule: del_cases)
  case miss
  then show ?thesis
    using assms hit_iff_key [of "entries s" k] by (auto simp: reg_wf_def)
next
  case (found us x vs)
  then have "key x = norm k"
    using assms hit_key by (auto simp: reg_wf_def)
  moreover from assms found have "key x \<notin> key ` set us" and "key x \<notin> key ` set vs"
    by (auto simp: reg_wf_def)
  ultimately show ?thesis using found by (simp add: image_Un)
qed

lemma count_card:
  "reg_wf cap wfe key (entries s) (count s) \<Longrightarrow> count s = int (card (key ` set (entries s)))"
  using distinct_card by (fastforce simp: reg_wf_def)

lemma del_found_iff:
  "reg_wf cap wfe key (entries s) (count s) \<Longrightarrow>
   fst (del k s) = (if norm k \<in> key ` set (entries s) then ret0 else Inl ENOENT)"
  using hit_iff_key [of "entries s" k]
  by (cases k s rule: del_cases) (auto simp: reg_wf_def)

text \<open>The sections implement the operations of the bounded set.\<close>

lemma refine_check:
  assumes "reg_wf cap wfe key (entries s) (count s)"
  shows "check k s = fst (bset_add cap (norm k) (key ` set (entries s)))"
proof -
  have "list_all wfe (entries s)" using assms by (simp add: reg_wf_def)
  then show ?thesis
    using count_card [OF assms] hit_iff_key [of "entries s" k]
    by (simp add: check_eq bset_add_def)
qed

lemma refine_commit:
  assumes "reg_wf cap wfe key (entries s) (count s)" "check k s = ret0" "built k e" "valid k"
  shows "(ret0, key ` set (entries (commit e s))) = bset_add cap (norm k) (key ` set (entries s))"
  using refine_check [OF assms(1), of k] assms(2-4)
  by (auto simp: keys_commit built_key bset_add_def split: if_splits)

lemma refine_reject:
  assumes "reg_wf cap wfe key (entries s) (count s)" "check k s = Inl e"
  shows "(Inl e, key ` set (entries s)) = bset_add cap (norm k) (key ` set (entries s))"
  using refine_check [OF assms(1), of k] assms(2)
  by (auto simp: bset_add_def split: if_splits)

lemma refine_del:
  assumes "reg_wf cap wfe key (entries s) (count s)"
  shows "(fst (del k s), key ` set (entries (snd (del k s)))) =
    bset_del (norm k) (key ` set (entries s))"
  using del_found_iff [OF assms, of k] keys_del [OF assms, of k] by (auto simp: bset_del_def)

text \<open>Removing what was just added gives the list back.\<close>

lemma del_commit:
  assumes "reg_wf cap wfe key (entries s) (count s)" "check k s = ret0" "built k e" "valid k"
  shows "fst (del k (commit e s)) = ret0 \<and> entries (snd (del k (commit e s))) = entries s \<and>
    count (snd (del k (commit e s))) = count s"
proof -
  have "hit k e" using assms built_wfe built_key hit_key by blast
  then have "del_first (hit k) (entries (commit e s)) = Some (entries s)"
    using assms(2) by (simp add: entries_commit check_ok_iff del_first_append_last)
  from del_hit [OF this] show ?thesis by (simp add: count_commit)
qed

text \<open>
  With interleaved writers the counter still counts the list and every entry is well formed,
  but the bound is weaker: a writer in flight has been admitted on an old count.
\<close>

lemma race_step_bounds:
  assumes "race_step check built commit del N (s, ps) (t, qs)"
    and "count s = int (length (entries s))" "list_all wfe (entries s)" "list_all wfe ps"
    and "count s + int (length ps) \<le> int (cap + N - 1)"
  shows "count t = int (length (entries t)) \<and> list_all wfe (entries t) \<and> list_all wfe qs \<and>
    count t + int (length qs) \<le> int (cap + N - 1)"
  using assms(1)
proof (cases rule: race_step.cases)
  case (check_section k e)
  then show ?thesis using assms(2-5) built_wfe by (auto simp: check_ok_iff)
next
  case (commit_section e)
  then have "length ps = Suc (length qs)"
    by (auto simp: length_remove1 dest: length_pos_if_in_set)
  with commit_section assms(2-5) show ?thesis
    using set_remove1_subset [of e ps]
    by (auto simp: entries_commit count_commit list_all_append list_all_iff)
next
  case (del_section k)
  then show ?thesis using assms(2-5)
    by (cases k s rule: del_cases) auto
qed

lemma race_bounds:
  assumes "race_run check built commit del N s0 x"
    and "reg_wf cap wfe key (entries s0) (count s0)" "1 \<le> N"
  shows "count (fst x) = int (length (entries (fst x))) \<and> list_all wfe (entries (fst x)) \<and>
    list_all wfe (snd x) \<and> count (fst x) + int (length (snd x)) \<le> int (cap + N - 1)"
  using assms(1)
proof (induction rule: race_run.induct)
  case race_start
  then show ?case using assms(2,3) by (auto simp: reg_wf_def)
next
  case (race_next x y)
  then show ?case
    using race_step_bounds [of N "fst x" "snd x" "fst y" "snd y"] by simp
qed

lemma race_count:
  assumes "race_run check built commit del N s0 (s, ps)"
    and "reg_wf cap wfe key (entries s0) (count s0)" "1 \<le> N"
  shows "count s = int (length (entries s)) \<and> length (entries s) + length ps \<le> cap + N - 1"
  using race_bounds [OF assms] by (auto simp del: of_nat_add)

text \<open>Two writers with the same key can both pass the check section and then both commit.\<close>

lemma race_duplicate:
  assumes "check k s = ret0" "built k e"
  shows "race_run check built commit del 2 s (s, [e, e])"
    and "race_run check built commit del 2 s (commit e (commit e s), [])"
proof -
  have admit: "race_step check built commit del 2 (s, ps) (s, e # ps)" if "length ps < 2" for ps
    by (rule check_section [where k = k]) (use assms that in auto)
  have put: "race_step check built commit del 2 (t, e # ps) (commit e t, ps)" for t ps
    using commit_section [of e "e # ps" check built commit del 2 t] by simp
  have "race_run check built commit del 2 s (s, [e])"
    by (rule race_next [OF race_start]) (rule admit, simp)
  then show 2: "race_run check built commit del 2 s (s, [e, e])"
    by (rule race_next) (rule admit, simp)
  have "race_run check built commit del 2 s (commit e s, [e])"
    by (rule race_next [OF 2 put])
  then show "race_run check built commit del 2 s (commit e (commit e s), [])"
    by (rule race_next [OF _ put])
qed

end

end
