(* ===== verification/Aegis_Process.thy ===== *)
theory Aegis_Process
  imports Aegis_Registry
begin

text \<open>
  The process protection subsystem, \<^verbatim>\<open>aegis/aegis_process.c\<close>: the list of protected
  processes, keyed by name and pid, its initialisation, addition, removal, the membership
  test the ptrace hook asks, and the listing. The two critical sections of the addition are
  definitions of their own, since the lock is dropped between them for the allocation.
\<close>

section \<open>Operations\<close>

definition proc_hit :: "string \<times> int \<Rightarrow> aegis_protected_proc \<Rightarrow> bool" where
  "proc_hit k proc \<longleftrightarrow> pp_pid proc = snd k \<and> strncmp AEGIS_COMM_LEN (pp_comm proc) (fst k) = 0"

definition proc_add_check :: "string \<times> int \<Rightarrow> aegis_state \<Rightarrow> cret" where
  "proc_add_check k s =
     (if int AEGIS_MAX_PROTECTED_PROCS \<le> protected_proc_count s then Inl ENOSPC
      else if list_ex (proc_hit k) (protected_procs s) then Inl EEXIST
      else ret0)"

definition proc_new :: "string \<Rightarrow> int \<Rightarrow> aegis_protected_proc" where
  "proc_new comm pid =
     \<lparr>pp_comm = strscpy (memset0 AEGIS_COMM_LEN) comm AEGIS_COMM_LEN, pp_pid = pid\<rparr>"

definition proc_add_commit :: "aegis_protected_proc \<Rightarrow> aegis_state \<Rightarrow> aegis_state" where
  "proc_add_commit proc s =
     s\<lparr>protected_procs := protected_procs s @ [proc],
       protected_proc_count := protected_proc_count s + 1\<rparr>"

text \<open>
  \<open>kmalloc\<close> says whether the allocation succeeds; a \<open>NULL\<close> name is \<open>None\<close>.
\<close>

definition aegis_protect_process_add ::
    "bool \<Rightarrow> string option \<Rightarrow> int \<Rightarrow> aegis_state \<Rightarrow> cret \<times> aegis_state" where
  "aegis_protect_process_add kmalloc comm pid s =
     (case comm of
        None \<Rightarrow> (Inl EINVAL, s)
      | Some c \<Rightarrow>
          (case proc_add_check (c, pid) s of
             Inl e \<Rightarrow> (Inl e, s)
           | Inr _ \<Rightarrow>
               if \<not> kmalloc then (Inl ENOMEM, s)
               else
                 (ret0, AEGIS_INFO (''Protected process added: '' @ cstr c @ '' (pid='' @
                    fmt_d pid @ '')'') (proc_add_commit (proc_new c pid) s))))"

definition aegis_protect_process_del ::
    "string option \<Rightarrow> int \<Rightarrow> aegis_state \<Rightarrow> cret \<times> aegis_state" where
  "aegis_protect_process_del comm pid s =
     (case comm of
        None \<Rightarrow> (Inl EINVAL, s)
      | Some c \<Rightarrow>
          (case del_first (proc_hit (c, pid)) (protected_procs s) of
             None \<Rightarrow> (Inl ENOENT, s)
           | Some ps \<Rightarrow>
               (ret0, AEGIS_INFO (''Protected process removed: '' @ cstr c @ '' (pid='' @
                  fmt_d pid @ '')'')
                  (s\<lparr>protected_procs := ps,
                     protected_proc_count := protected_proc_count s - 1\<rparr>))))"

text \<open>
  The allocations of the three default entries are given by a list of outcomes; the results
  of the additions are ignored, as in the source.
\<close>

definition aegis_process_init :: "bool \<times> bool \<times> bool \<Rightarrow> aegis_state \<Rightarrow> cret \<times> aegis_state" where
  "aegis_process_init kmallocs s =
     (let (k1, k2, k3) = kmallocs;
          s0 = s\<lparr>protected_proc_count := 0\<rparr>;
          s1 = snd (aegis_protect_process_add k1 (Some ''sshd'') 0 s0);
          s2 = snd (aegis_protect_process_add k2 (Some ''init'') 1 s1);
          s3 = snd (aegis_protect_process_add k3 (Some ''systemd'') 1 s2)
      in (ret0, s3))"

definition aegis_process_exit :: "aegis_state \<Rightarrow> aegis_state" where
  "aegis_process_exit s = s\<lparr>protected_procs := [], protected_proc_count := 0\<rparr>"

text \<open>The test one list entry puts to a task: by pid, by the task's name, by its leader's name.\<close>

definition proc_entry_protects :: "task_struct \<Rightarrow> aegis_protected_proc \<Rightarrow> bool" where
  "proc_entry_protects task entry \<longleftrightarrow>
     (pp_pid entry \<noteq> 0 \<and> pp_pid entry = task_pid task) \<or>
     (pp_pid entry = 0 \<and> strncmp AEGIS_COMM_LEN (pp_comm entry) (task_comm task) = 0) \<or>
     (pp_pid entry = 0 \<and> strncmp AEGIS_COMM_LEN (pp_comm entry) (task_leader_comm task) = 0)"

definition aegis_is_process_protected :: "task_struct option \<Rightarrow> aegis_state \<Rightarrow> bool" where
  "aegis_is_process_protected task s =
     (case task of
        None \<Rightarrow> False
      | Some t \<Rightarrow>
          if \<not> AEGIS_FEATURE_CHECK AEGIS_FEATURE_PROCESS_PROTECT s then False
          else list_ex (proc_entry_protects t) (protected_procs s))"

text \<open>What the show operation appends to the sequence file.\<close>

definition aegis_protected_process_show :: "aegis_state \<Rightarrow> string" where
  "aegis_protected_process_show s =
     ''AEGIS Protected Processes ('' @ fmt_d (protected_proc_count s) @ '' entries):'' @ [LF] @
     pad_right 20 ''COMM'' @ '' '' @ pad_left (CHR '' '') 8 ''PID'' @ [LF] @
     pad_right 20 ''----'' @ '' '' @ pad_left (CHR '' '') 8 ''---'' @ [LF] @
     concat (map (\<lambda>entry. pad_right 20 (cstr (pp_comm entry)) @ '' '' @
                    pad_left (CHR '' '') 8 (fmt_d (pp_pid entry)) @ [LF])
                 (protected_procs s))"

lemmas proc_defs [aegis_defs] =
  aegis_protect_process_add_def aegis_protect_process_del_def proc_add_check_def
  proc_add_commit_def proc_new_def


section \<open>The list keeps its contract\<close>

definition proc_wfe :: "aegis_protected_proc \<Rightarrow> bool" where
  "proc_wfe e \<longleftrightarrow> length (pp_comm e) = AEGIS_COMM_LEN \<and> length (cstr (pp_comm e)) < AEGIS_COMM_LEN"

definition proc_key :: "aegis_protected_proc \<Rightarrow> string \<times> int" where
  "proc_key e = (cstr (pp_comm e), pp_pid e)"

definition proc_built :: "string \<times> int \<Rightarrow> aegis_protected_proc \<Rightarrow> bool" where
  "proc_built k e \<longleftrightarrow> e = proc_new (fst k) (snd k)"

definition proc_norm :: "string \<times> int \<Rightarrow> string \<times> int" where
  "proc_norm k = (cstr (fst k), snd k)"

definition proc_valid :: "string \<times> int \<Rightarrow> bool" where
  "proc_valid k \<longleftrightarrow> length (cstr (fst k)) < AEGIS_COMM_LEN"

definition procs_wf :: "aegis_state \<Rightarrow> bool" where
  "procs_wf s \<longleftrightarrow>
     reg_wf AEGIS_MAX_PROTECTED_PROCS proc_wfe proc_key (protected_procs s) (protected_proc_count s)"

lemma proc_new_wfe: "proc_wfe (proc_new c p)"
  by (simp add: proc_wfe_def proc_new_def length_strscpy cstr_strscpy aegis_consts)

lemma proc_new_key: "length (cstr c) < AEGIS_COMM_LEN \<Longrightarrow> proc_key (proc_new c p) = (cstr c, p)"
  by (simp add: proc_key_def proc_new_def cstr_strscpy aegis_consts)

lemma proc_hit_key: "proc_wfe e \<Longrightarrow> proc_hit k e \<longleftrightarrow> proc_key e = proc_norm k"
  by (auto simp: proc_hit_def proc_wfe_def proc_key_def proc_norm_def strncmp_terminated)

interpretation pl: policy_list protected_procs protected_proc_count AEGIS_MAX_PROTECTED_PROCS
  proc_hit proc_add_check proc_built proc_add_commit
  "\<lambda>k. aegis_protect_process_del (Some (fst k)) (snd k)"
  proc_key proc_norm proc_valid proc_wfe
proof (unfold_locales, goal_cases)
  case (6 e k)
  then show ?case by (rule proc_hit_key)
next
  case (7 k e)
  then show ?case by (simp add: proc_built_def proc_new_wfe)
next
  case (8 k e)
  then show ?case by (simp add: proc_built_def proc_norm_def proc_valid_def proc_new_key)
qed (simp_all add: proc_defs)

lemma procs_wf_add:
  assumes "procs_wf s" "length (cstr c) < AEGIS_COMM_LEN"
  shows "procs_wf (snd (aegis_protect_process_add km (Some c) p s))"
proof (cases "proc_add_check (c, p) s = ret0 \<and> km")
  case True
  then have "procs_wf (proc_add_commit (proc_new c p) s)"
    using pl.commit_wf [of s "(c, p)" "proc_new c p"] assms
    by (simp add: procs_wf_def proc_built_def proc_valid_def)
  with True show ?thesis
    by (simp add: aegis_protect_process_add_def procs_wf_def)
next
  case False
  then show ?thesis
    using assms by (auto simp: aegis_protect_process_add_def proc_add_check_def)
qed

lemma procs_wf_del:
  "procs_wf s \<Longrightarrow> procs_wf (snd (aegis_protect_process_del c p s))"
  using pl.del_wf [of s "(the c, p)"]
  by (cases c) (auto simp: procs_wf_def aegis_protect_process_del_def)

lemma proc_add_frame [frame, simp]:
  "aegis_cfg (snd (aegis_protect_process_add km c p s)) = aegis_cfg s"
  "protected_files (snd (aegis_protect_process_add km c p s)) = protected_files s"
  "protected_file_count (snd (aegis_protect_process_add km c p s)) = protected_file_count s"
  "blocked_syscalls (snd (aegis_protect_process_add km c p s)) = blocked_syscalls s"
  "blocked_syscall_count (snd (aegis_protect_process_add km c p s)) = blocked_syscall_count s"
  by (auto simp: aegis_protect_process_add_def proc_add_commit_def split: option.splits sum.splits)

lemma proc_del_frame [frame, simp]:
  "aegis_cfg (snd (aegis_protect_process_del c p s)) = aegis_cfg s"
  "protected_files (snd (aegis_protect_process_del c p s)) = protected_files s"
  "protected_file_count (snd (aegis_protect_process_del c p s)) = protected_file_count s"
  "blocked_syscalls (snd (aegis_protect_process_del c p s)) = blocked_syscalls s"
  "blocked_syscall_count (snd (aegis_protect_process_del c p s)) = blocked_syscall_count s"
  by (auto simp: aegis_protect_process_del_def split: option.splits)

text \<open>
  The set of protected (name, pid) keys, and what the test means on it: a pid entry protects
  that pid whatever its name, a name entry (pid 0) protects every task of that name and every
  thread of a process whose leader has it.
\<close>

definition proc_keys :: "aegis_state \<Rightarrow> (string \<times> int) set" where
  "proc_keys s = proc_key ` set (protected_procs s)"

lemma entry_protects_key:
  "proc_wfe e \<Longrightarrow> proc_entry_protects t e \<longleftrightarrow>
     (snd (proc_key e) \<noteq> 0 \<and> snd (proc_key e) = task_pid t) \<or>
     (snd (proc_key e) = 0 \<and> fst (proc_key e) \<in> {cstr (task_comm t), cstr (task_leader_comm t)})"
  by (auto simp: proc_entry_protects_def proc_wfe_def proc_key_def strncmp_terminated)

lemma list_ex_protects:
  "list_all proc_wfe es \<Longrightarrow>
   list_ex (proc_entry_protects t) es \<longleftrightarrow>
     (\<exists>k\<in>proc_key ` set es. (snd k \<noteq> 0 \<and> snd k = task_pid t) \<or>
        (snd k = 0 \<and> fst k \<in> {cstr (task_comm t), cstr (task_leader_comm t)}))"
  by (induction es) (simp_all add: entry_protects_key)

lemma process_add_refines:
  assumes "procs_wf s" "length (cstr c) < AEGIS_COMM_LEN"
    and "aegis_protect_process_add km (Some c) p s = (r, t)"
  shows "(r, proc_keys t) = bset_insert km AEGIS_MAX_PROTECTED_PROCS (cstr c, p) (proc_keys s)"
proof -
  have wf: "reg_wf AEGIS_MAX_PROTECTED_PROCS proc_wfe proc_key (protected_procs s)
      (protected_proc_count s)"
    using assms(1) by (simp add: procs_wf_def)
  have norm: "proc_norm (c, p) = (cstr c, p)" by (simp add: proc_norm_def)
  show ?thesis
  proof (cases "proc_add_check (c, p) s")
    case (Inl e)
    then show ?thesis
      using pl.refine_reject [OF wf Inl] assms(3) norm
      by (auto simp: aegis_protect_process_add_def proc_keys_def bset_insert_def dest: sym)
  next
    case (Inr n)
    then have ok: "proc_add_check (c, p) s = ret0"
      by (auto simp: proc_add_check_def split: if_splits)
    have "proc_built (c, p) (proc_new c p)" "proc_valid (c, p)"
      using assms(2) by (simp_all add: proc_built_def proc_valid_def)
    from pl.refine_commit [OF wf ok this] show ?thesis
      using assms(3) ok norm
      by (auto simp: aegis_protect_process_add_def proc_keys_def bset_insert_def dest: sym
          split: if_splits)
  qed
qed

lemma process_del_refines:
  assumes "procs_wf s" "aegis_protect_process_del (Some c) p s = (r, t)"
  shows "(r, proc_keys t) = bset_del (cstr c, p) (proc_keys s)"
  using pl.refine_del [of s "(c, p)"] assms
  by (simp add: procs_wf_def proc_keys_def proc_norm_def)

lemma procs_wf_statics [simp]: "procs_wf aegis_statics"
  by (simp add: procs_wf_def aegis_statics_def)


section \<open>Properties\<close>

text \<open>
  C15: The process list implements a set of at most 64 (name, pid) keys. On a well-formed list,
  adding a name of up to 15 bytes answers and changes the set as the abstract bounded set does
  (\<open>-ENOSPC\<close> before \<open>-EEXIST\<close> before \<open>-ENOMEM\<close>), removing answers \<open>-ENOENT\<close> exactly
  for an absent key, and both leave the list well formed: the counter equals the length, the
  bound holds, names are terminated, keys are distinct.
\<close>

theorem process_list_refines_set:
  assumes "procs_wf s" and "length (cstr c) < AEGIS_COMM_LEN"
  shows "(case aegis_protect_process_add km (Some c) p s of (r, t) \<Rightarrow>
            procs_wf t \<and>
            (r, proc_keys t) = bset_insert km AEGIS_MAX_PROTECTED_PROCS (cstr c, p) (proc_keys s)) \<and>
         (case aegis_protect_process_del (Some c) p s of (r, t) \<Rightarrow>
            procs_wf t \<and> (r, proc_keys t) = bset_del (cstr c, p) (proc_keys s))"
  using procs_wf_add [OF assms, of km p] process_add_refines [OF assms]
    procs_wf_del [OF assms(1)] process_del_refines [OF assms(1)]
  by (auto split: prod.split) (metis prod.collapse snd_conv)+

theorem process_list_refines_set_witness:
  "procs_wf aegis_statics \<and> length (cstr ''sshd'') < AEGIS_COMM_LEN \<and>
   (case aegis_protect_process_add True (Some ''sshd'') 0 aegis_statics of (r, t) \<Rightarrow>
      (r, proc_keys t) = (ret0, {(''sshd'', 0)}))"
  using process_list_refines_set [of aegis_statics "''sshd''" True 0]
  by (simp add: cstr_Cons AEGIS_COMM_LEN_def case_prod_beta bset_insert_def bset_add_def
      proc_keys_def AEGIS_MAX_PROTECTED_PROCS_def)

end
