(* ===== verification/Aegis_Digest.thy ===== *)
theory Aegis_Digest
  imports Aegis_State
begin

text \<open>
  The digest of a file, \<open>aegis_compute_file_hash\<close> of \<^verbatim>\<open>aegis/aegis_file.c\<close>. The VFS
  and the crypto layer are parameters: a file is what \<open>kernel_read\<close> answers at a position of
  type \<open>loff_t\<close> (an error, or some bytes and the position it leaves in \<open>*pos\<close>; the driver of
  the file decides that position), the hash transform is a record of the shash entry points over
  an abstract descriptor state. The read loop has no bound in the source, so it is a partial
  function: \<open>None\<close> is a call that never returns.
\<close>

section \<open>Digest computation\<close>

type_synonym loff_t = "64 word"

type_synonym reader = "loff_t \<Rightarrow> errno + (8 word list \<times> loff_t)"

record 'd hash_env =
  crypto_alloc_shash :: "errno option"
  desc_kmalloc :: bool
  crypto_shash_init :: "errno + 'd"
  buf_kmalloc :: bool
  crypto_shash_update :: "'d \<Rightarrow> 8 word list \<Rightarrow> errno + 'd"
  crypto_shash_final :: "'d \<Rightarrow> errno + 8 word list"

text \<open>The loop over \<open>kernel_read\<close>, which reads at \<open>pos\<close> and updates it; no bytes end it.\<close>

partial_function (option) hash_loop ::
    "reader \<Rightarrow> ('d \<Rightarrow> 8 word list \<Rightarrow> errno + 'd) \<Rightarrow> 'd \<Rightarrow> loff_t \<Rightarrow> (errno + 'd) option" where
  "hash_loop rd upd d pos =
     (case rd pos of
        Inl e \<Rightarrow> Some (Inl e)
      | Inr (bytes, pos') \<Rightarrow>
          if bytes = [] then Some (Inr d)
          else (case upd d bytes of
                  Inl e \<Rightarrow> Some (Inl e)
                | Inr d' \<Rightarrow> hash_loop rd upd d' pos'))"

text \<open>
  The resources a call holds: each call returns its result together with what it acquired and
  released, in order. The three labels at the end of the function fall through into one another;
  each takes \<open>ret\<close> and the operations so far.
\<close>

datatype resource = Tfm | Desc | Buf

datatype resop = Acquire resource | Release resource

type_synonym hash_exit = "(errno + 8 word list) \<times> resop list"

definition out_tfm :: "errno + 8 word list \<Rightarrow> resop list \<Rightarrow> hash_exit" where
  "out_tfm ret ops = (ret, ops @ [Release Tfm])"

definition out_desc :: "errno + 8 word list \<Rightarrow> resop list \<Rightarrow> hash_exit" where
  "out_desc ret ops = out_tfm ret (ops @ [Release Desc])"

definition out_buf :: "errno + 8 word list \<Rightarrow> resop list \<Rightarrow> hash_exit" where
  "out_buf ret ops = out_desc ret (ops @ [Release Buf])"

definition aegis_compute_file_hash ::
    "'d hash_env \<Rightarrow> reader option \<Rightarrow> bool \<Rightarrow> hash_exit option" where
  "aegis_compute_file_hash env file hash_out =
     (if file = None \<or> \<not> hash_out then Some (Inl EINVAL, [])
      else
        case crypto_alloc_shash env of
          Some e \<Rightarrow> Some (Inl e, [])
        | None \<Rightarrow>
            let ops = [Acquire Tfm] in
            if \<not> desc_kmalloc env then Some (out_tfm (Inl ENOMEM) ops)
            else
              let ops = ops @ [Acquire Desc] in
              (case crypto_shash_init env of
                 Inl e \<Rightarrow> Some (out_desc (Inl e) ops)
               | Inr d \<Rightarrow>
                   if \<not> buf_kmalloc env then Some (out_desc (Inl ENOMEM) ops)
                   else
                     let ops = ops @ [Acquire Buf] in
                     (case hash_loop (the file) (crypto_shash_update env) d 0 of
                        None \<Rightarrow> None
                      | Some (Inl e) \<Rightarrow> Some (out_buf (Inl e) ops)
                      | Some (Inr d') \<Rightarrow> Some (out_buf (crypto_shash_final env d') ops))))"

lemmas hash_exits = out_tfm_def out_desc_def out_buf_def


section \<open>The read loop\<close>

text \<open>
  A reader of a file with contents \<open>c\<close>: at each position before the end a read returns
  between one byte and a page of the contents from there and moves past them, and at the end
  (and at later positions a file can have) it returns nothing.
\<close>

definition PAGE_SIZE :: nat where "PAGE_SIZE = 4096"

definition reads_file :: "8 word list \<Rightarrow> reader \<Rightarrow> bool" where
  "reads_file c rd \<longleftrightarrow>
     length c < 2 ^ 63 \<and>
     (\<forall>pos. if unat pos < length c
            then \<exists>n. 0 < n \<and> n \<le> PAGE_SIZE \<and>
                   (let bs = take n (drop (unat pos) c)
                    in rd pos = Inr (bs, pos + word_of_nat (length bs)))
            else unat pos < 2 ^ 63 \<longrightarrow> rd pos = Inr ([], pos))"

text \<open>
  A streaming hash: updates with consecutive pieces amount to one update with their
  concatenation, and the final step yields the digest of everything absorbed.
\<close>

definition streaming_hash ::
    "'d hash_env \<Rightarrow> ('d \<Rightarrow> 8 word list \<Rightarrow> 'd) \<Rightarrow> 'd \<Rightarrow> (8 word list \<Rightarrow> 8 word list) \<Rightarrow> bool" where
  "streaming_hash env absorb d0 digest \<longleftrightarrow>
     crypto_alloc_shash env = None \<and> desc_kmalloc env \<and> buf_kmalloc env \<and>
     crypto_shash_init env = Inr d0 \<and>
     (\<forall>d bs. crypto_shash_update env d bs = Inr (absorb d bs)) \<and>
     (\<forall>d. absorb d [] = d) \<and>
     (\<forall>d as bs. absorb (absorb d as) bs = absorb d (as @ bs)) \<and>
     (\<forall>m. crypto_shash_final env (absorb d0 m) = Inr (digest m))"

lemma unat_pos_add:
  "unat (pos :: loff_t) + n < 2 ^ 64 \<Longrightarrow> unat (pos + word_of_nat n) = unat pos + n"
  by (simp add: unat_word_ariths take_bit_nat_eq_self unsigned_of_nat)

lemma hash_loop_step:
  "rd pos = Inr (b # bs, pos') \<Longrightarrow> upd d (b # bs) = Inr d' \<Longrightarrow>
   hash_loop rd upd d pos = hash_loop rd upd d' pos'"
  by (subst hash_loop.simps) simp

lemma hash_loop_reads:
  assumes rd: "reads_file c rd"
    and upd: "\<And>d bs. upd d bs = Inr (absorb d bs)"
    and app: "\<And>d as bs. absorb (absorb d as) bs = absorb d (as @ bs)"
    and nil: "\<And>d. absorb d [] = d"
  shows "unat pos \<le> length c \<Longrightarrow>
    hash_loop rd upd d pos = Some (Inr (absorb d (drop (unat pos) c)))"
proof (induction "length c - unat pos" arbitrary: d pos rule: less_induct)
  case less
  have size: "length c < 2 ^ 63" using rd by (simp add: reads_file_def)
  show ?case
  proof (cases "unat pos < length c")
    case True
    then obtain n where n: "0 < n" and rn: "rd pos = Inr (take n (drop (unat pos) c),
        pos + word_of_nat (length (take n (drop (unat pos) c))))"
      using rd unfolding reads_file_def Let_def by meson
    define bs where "bs = take n (drop (unat pos) c)"
    define p where "p = pos + word_of_nat (length bs)"
    have ne: "bs \<noteq> []" and len: "0 < length bs" "unat pos + length bs \<le> length c"
      using True n by (auto simp: bs_def)
    have p: "unat p = unat pos + length bs"
      unfolding p_def using size len(2) by (intro unat_pos_add) simp
    have step: "hash_loop rd upd d pos = hash_loop rd upd (absorb d bs) p"
      using rn ne by (subst hash_loop.simps) (simp add: upd bs_def p_def)
    have "hash_loop rd upd (absorb d bs) p = Some (Inr (absorb (absorb d bs) (drop (unat p) c)))"
      using True len p by (intro less) linarith+
    moreover have "bs @ drop (unat p) c = drop (unat pos) c"
      using take_append_drop_length [of n "drop (unat pos) c"]
      by (simp add: p bs_def add.commute)
    ultimately show ?thesis unfolding step by (simp add: app)
  next
    case False
    with less.prems size have "unat pos < 2 ^ 63" by linarith
    with False have "rd pos = Inr ([], pos)" using rd unfolding reads_file_def by meson
    with False show ?thesis by (subst hash_loop.simps) (simp add: nil)
  qed
qed

text \<open>
  Whether the first \<open>n\<close> reads from a position all give bytes, each at the position the previous
  one left; and a file that ends: not all of its reads from the start do. Short reads and read
  errors are allowed.
\<close>

primrec reads_on :: "reader \<Rightarrow> loff_t \<Rightarrow> nat \<Rightarrow> bool" where
  "reads_on rd pos 0 \<longleftrightarrow> True"
| "reads_on rd pos (Suc n) \<longleftrightarrow>
     (case rd pos of Inl _ \<Rightarrow> False | Inr (bs, pos') \<Rightarrow> bs \<noteq> [] \<and> reads_on rd pos' n)"

definition finite_reader :: "reader \<Rightarrow> bool" where
  "finite_reader rd \<longleftrightarrow> (\<exists>n. \<not> reads_on rd 0 n)"

lemma reads_on_Suc:
  "reads_on rd pos (Suc n) \<longleftrightarrow> (\<exists>bs p. rd pos = Inr (bs, p) \<and> bs \<noteq> [] \<and> reads_on rd p n)"
  by (auto split: sum.split)

lemma hash_loop_ends:
  "\<not> reads_on rd pos n \<Longrightarrow> \<exists>r. hash_loop rd upd d pos = Some r"
proof (induction n arbitrary: pos d)
  case (Suc n)
  show ?case
  proof (cases "\<exists>b bs p d'. rd pos = Inr (b # bs, p) \<and> upd d (b # bs) = Inr d'")
    case True
    then obtain b bs p d' where r: "rd pos = Inr (b # bs, p)" "upd d (b # bs) = Inr d'" by blast
    with Suc.prems have "\<not> reads_on rd p n" by simp
    with Suc.IH [of p d'] show ?thesis by (simp add: hash_loop_step [of rd pos b bs p upd d d', OF r])
  next
    case False
    then show ?thesis
      by (subst hash_loop.simps) (auto split: sum.split prod.split simp: neq_Nil_conv)
  qed
qed simp

lemma hash_loop_endless:
  assumes "hash_loop rd upd d pos = Some r" and "\<forall>d bs. \<exists>d'. upd d bs = Inr d'"
  shows "\<exists>n. \<not> reads_on rd pos n"
proof -
  have "(\<forall>d bs. \<exists>d'. upd d bs = Inr d') \<longrightarrow> (\<exists>n. \<not> reads_on rd pos n)"
    using assms(1)
  proof (rule hash_loop.raw_induct [rotated])
    fix f :: "reader \<Rightarrow> ('d \<Rightarrow> 8 word list \<Rightarrow> errno + 'd) \<Rightarrow> 'd \<Rightarrow> loff_t \<Rightarrow> (errno + 'd) option"
      and rd :: reader and upd d pos r
    assume IH: "\<And>rd upd d pos r. f rd upd d pos = Some r \<Longrightarrow>
        (\<forall>d bs. \<exists>d'. upd d bs = Inr d') \<longrightarrow> (\<exists>n. \<not> reads_on rd pos n)"
      and eq: "(case rd pos of Inl e \<Rightarrow> Some (Inl e)
        | Inr (bytes, pos') \<Rightarrow> if bytes = [] then Some (Inr d)
            else case upd d bytes of Inl e \<Rightarrow> Some (Inl e)
              | Inr d' \<Rightarrow> f rd upd d' pos') = Some r"
    show "(\<forall>d bs. \<exists>d'. upd d bs = Inr d') \<longrightarrow> (\<exists>n. \<not> reads_on rd pos n)"
    proof
      assume tot: "\<forall>d bs. \<exists>d'. upd d bs = Inr d'"
      show "\<exists>n. \<not> reads_on rd pos n"
      proof (cases "reads_on rd pos 1")
        case True
        then obtain bs p where r: "rd pos = Inr (bs, p)" "bs \<noteq> []"
          by (auto split: sum.splits)
        moreover obtain d' where "upd d bs = Inr d'" using tot by metis
        ultimately have "f rd upd d' p = Some r" using eq by simp
        then obtain n where "\<not> reads_on rd p n" using IH tot by blast
        with r have "\<not> reads_on rd pos (Suc n)" by simp
        then show ?thesis by blast
      qed blast
    qed
  qed
  with assms(2) show ?thesis by blast
qed

lemma hash_loop_returns_iff:
  assumes "\<forall>d bs. \<exists>d'. upd d bs = Inr d'"
  shows "(\<exists>r. hash_loop rd upd d 0 = Some r) \<longleftrightarrow> finite_reader rd"
  using hash_loop_ends [of rd 0 _ upd d] hash_loop_endless [OF _ assms, of rd d 0]
  unfolding finite_reader_def by blast

text \<open>
  A file whose reads end: one with contents; and every file that is read like a regular one,
  where a read moves the position by the bytes it gave, a page at most, and a negative position
  is refused. However long such a file is (or grows), its position runs out. A device that
  leaves the position as it was, as the drivers of \<open>/dev/zero\<close> and \<open>/dev/urandom\<close> do, and
  always has bytes, is not one of them.
\<close>

definition regular_reader :: "reader \<Rightarrow> bool" where
  "regular_reader rd \<longleftrightarrow>
     (\<forall>pos bs pos'. rd pos = Inr (bs, pos') \<longrightarrow>
        unat pos < 2 ^ 63 \<and> length bs \<le> PAGE_SIZE \<and> pos' = pos + word_of_nat (length bs))"

lemma regular_reads:
  "regular_reader rd \<Longrightarrow> reads_on rd pos (Suc n) \<Longrightarrow> unat pos + n < 2 ^ 63"
proof (induction n arbitrary: pos)
  case 0
  then show ?case by (auto simp: regular_reader_def split: sum.splits)
next
  case (Suc n)
  then obtain bs p where r: "rd pos = Inr (bs, p)" "bs \<noteq> []" and on: "reads_on rd p (Suc n)"
    by (auto simp: reads_on_Suc simp del: reads_on.simps)
  then have pos: "unat pos < 2 ^ 63" "length bs \<le> 4096" "p = pos + word_of_nat (length bs)"
    using Suc.prems(1) by (auto simp: regular_reader_def PAGE_SIZE_def)
  have "unat p = unat pos + length bs"
    unfolding pos(3) by (rule unat_pos_add) (use pos(1,2) in simp)
  moreover have "0 < length bs" using r(2) by simp
  ultimately show ?case using Suc.IH [OF Suc.prems(1) on] by linarith
qed

lemma regular_finite: "regular_reader rd \<Longrightarrow> finite_reader rd"
  using regular_reads [of rd 0 "2 ^ 63"] unfolding finite_reader_def by blast

lemma reads_file_finite: "reads_file c rd \<Longrightarrow> finite_reader rd"
  using hash_loop_reads [of c rd "\<lambda>d bs. Inr ()" "\<lambda>d bs. d" 0 "()"]
    hash_loop_returns_iff [of "\<lambda>d bs. Inr ()" rd "()"]
  by auto

lemma stuck_reader: "rd 0 = Inr (b # bs, 0) \<Longrightarrow> \<not> finite_reader rd"
proof -
  assume "rd 0 = Inr (b # bs, 0)"
  then have "reads_on rd 0 n" for n by (induction n) simp_all
  then show ?thesis by (simp add: finite_reader_def)
qed

text \<open>The resources held after a sequence of acquisitions and releases in stack order.\<close>

fun holds :: "resource list \<Rightarrow> resop list \<Rightarrow> resource list option" where
  "holds held [] = Some held"
| "holds held (Acquire r # ops) = (if r \<in> set held then None else holds (r # held) ops)"
| "holds held (Release r # ops) =
     (case held of [] \<Rightarrow> None | h # hs \<Rightarrow> if h = r then holds hs ops else None)"

lemma compute_hash_balanced:
  "aegis_compute_file_hash env f ok = Some (r, ops) \<Longrightarrow> holds [] ops = Some []"
  by (auto simp: aegis_compute_file_hash_def hash_exits Let_def
      split: if_splits option.splits sum.splits)

lemma compute_hash_returns:
  assumes "\<And>rd. f = Some rd \<Longrightarrow> finite_reader rd"
  shows "\<exists>r ops. aegis_compute_file_hash env f ok = Some (r, ops)"
proof (cases f)
  case None
  then show ?thesis by (simp add: aegis_compute_file_hash_def)
next
  case (Some rd)
  have ends: "hash_loop rd (crypto_shash_update env) d 0 \<noteq> None" for d
    using hash_loop_ends [of rd 0 _ "crypto_shash_update env" d] assms [OF Some]
    by (auto simp: finite_reader_def)
  show ?thesis
    by (auto simp: Some ends aegis_compute_file_hash_def hash_exits Let_def
        split: option.split sum.split)
qed

lemma compute_hash_digest:
  assumes "streaming_hash env absorb d0 digest" "reads_file c rd"
  shows "\<exists>ops. aegis_compute_file_hash env (Some rd) True = Some (Inr (digest c), ops)"
proof -
  have ends: "hash_loop rd (crypto_shash_update env) d0 0 = Some (Inr (absorb d0 c))"
    using assms(1) hash_loop_reads [OF assms(2), of "crypto_shash_update env" absorb 0 d0]
    by (simp add: streaming_hash_def)
  with assms(1) show ?thesis
    by (simp add: aegis_compute_file_hash_def streaming_hash_def hash_exits Let_def)
qed

text \<open>
  The digest computation is the digest of the whole file. With a streaming hash and a file
  read in pieces of any size up to a page, the page loop ends and the result is the digest of
  the file's contents.
\<close>

lemma file_hash_is_digest:
  assumes "streaming_hash env absorb d0 digest" and "reads_file c rd"
  shows "map_option fst (aegis_compute_file_hash env (Some rd) True) = Some (Inr (digest c))"
  using compute_hash_digest [OF assms] by auto


section \<open>A concrete hash\<close>

text \<open>
  Instances for evaluation: the transform that collects what it absorbs and yields a 32-byte
  digest (length and sum of the bytes), and a reader that delivers a byte list a few bytes at a
  time.
\<close>

definition demo_digest :: "8 word list \<Rightarrow> 8 word list" where
  "demo_digest m = word_of_nat (length m) # sum_list m # replicate 30 0"

definition demo_hash :: "8 word list hash_env" where
  "demo_hash =
     \<lparr>crypto_alloc_shash = None, desc_kmalloc = True, crypto_shash_init = Inr [],
      buf_kmalloc = True, crypto_shash_update = (\<lambda>d bs. Inr (d @ bs)),
      crypto_shash_final = (\<lambda>d. Inr (demo_digest d))\<rparr>"

definition chunk_reader :: "8 word list \<Rightarrow> reader" where
  "chunk_reader c pos =
     (let bs = take 3 (drop (unat pos) c) in Inr (bs, pos + word_of_nat (length bs)))"

lemma demo_streaming: "streaming_hash demo_hash (@) [] demo_digest"
  by (simp add: streaming_hash_def demo_hash_def)

lemma chunk_reader_reads: "length c < 2 ^ 63 \<Longrightarrow> reads_file c (chunk_reader c)"
  unfolding reads_file_def chunk_reader_def PAGE_SIZE_def Let_def by (auto intro: exI [of _ 3])


section \<open>Properties\<close>

text \<open>
  C20: On a file that ends the digest computation returns, on every path (missing arguments,
  failed allocations, read and hash errors, success), and it has released the transform, the
  descriptor and the buffer it acquired, in reverse order.
\<close>

theorem file_hash_releases_all:
  assumes "\<forall>rd. f = Some rd \<longrightarrow> finite_reader rd"
  shows "\<exists>r ops. aegis_compute_file_hash env f ok = Some (r, ops) \<and> holds [] ops = Some []"
  using compute_hash_returns [of f env ok] assms compute_hash_balanced by blast

theorem file_hash_releases_all_witness:
  "finite_reader (\<lambda>pos. Inl EFAULT) \<and>
   (\<exists>r ops. aegis_compute_file_hash demo_hash (Some (\<lambda>pos. Inl EFAULT)) True = Some (r, ops) \<and>
      holds [] ops = Some [])"
proof -
  have h: "\<forall>rd. Some (\<lambda>pos. Inl EFAULT :: errno + (8 word list \<times> loff_t)) = Some rd \<longrightarrow>
      finite_reader rd"
    by (auto simp: finite_reader_def intro: exI [of _ 1])
  with file_hash_releases_all [OF h, of demo_hash True] show ?thesis by blast
qed

end
