(* ===== verification/Aegis_File.thy ===== *)
theory Aegis_File
  imports Aegis_Registry Aegis_Digest
begin

text \<open>
  The file integrity subsystem, \<^verbatim>\<open>aegis/aegis_file.c\<close>: the list of protected paths,
  its additions (with the digest of \<open>Aegis_Digest\<close>) and removals, the membership test the file
  hooks ask, and the listing. Path resolution and opening are parameters.
\<close>

section \<open>The protected file list\<close>

record ('d, 'p) file_env =
  fe_kmalloc :: bool
  fe_junk :: "8 word list"
  fe_kern_path :: "string \<Rightarrow> errno + 'p"
  fe_dentry_open :: "'p \<Rightarrow> errno + reader"
  fe_hash :: "'d hash_env"

definition file_hit :: "string \<Rightarrow> aegis_protected_file \<Rightarrow> bool" where
  "file_hit path file \<longleftrightarrow> strncmp AEGIS_PATH_LEN (pf_path file) path = 0"

definition file_add_check :: "string \<Rightarrow> aegis_state \<Rightarrow> cret" where
  "file_add_check path s =
     (if int AEGIS_MAX_PROTECTED_FILES \<le> protected_file_count s then Inl ENOSPC
      else if list_ex (file_hit path) (protected_files s) then Inl EEXIST
      else ret0)"

definition file_add_commit :: "aegis_protected_file \<Rightarrow> aegis_state \<Rightarrow> aegis_state" where
  "file_add_commit file s =
     s\<lparr>protected_files := protected_files s @ [file],
       protected_file_count := protected_file_count s + 1\<rparr>"

text \<open>
  The new entry, and the attempt to compute its initial digest: path lookup, read-only open,
  digest. Every failure leaves the digest invalid; the digest bytes of a fresh entry are
  whatever \<open>kmalloc\<close> returned.
\<close>

definition file_new :: "('d, 'p) file_env \<Rightarrow> string \<Rightarrow> aegis_protected_file option" where
  "file_new fe path =
     (let file = \<lparr>pf_path = strscpy (memset0 AEGIS_PATH_LEN) path AEGIS_PATH_LEN,
                  pf_hash = fe_junk fe, pf_hash_valid = False\<rparr>
      in case fe_kern_path fe (cstr path) of
           Inl _ \<Rightarrow> Some file
         | Inr fpath \<Rightarrow>
             (case fe_dentry_open fe fpath of
                Inl _ \<Rightarrow> Some file
              | Inr f \<Rightarrow>
                  (case aegis_compute_file_hash (fe_hash fe) (Some f) True of
                     None \<Rightarrow> None
                   | Some (Inl _, _) \<Rightarrow> Some file
                   | Some (Inr h, _) \<Rightarrow> Some (file\<lparr>pf_hash := h, pf_hash_valid := True\<rparr>))))"

definition aegis_protected_file_add ::
    "('d, 'p) file_env \<Rightarrow> string option \<Rightarrow> aegis_state \<Rightarrow> (cret \<times> aegis_state) option" where
  "aegis_protected_file_add fe path s =
     (case path of
        None \<Rightarrow> Some (Inl EINVAL, s)
      | Some p \<Rightarrow>
          (case file_add_check p s of
             Inl e \<Rightarrow> Some (Inl e, s)
           | Inr _ \<Rightarrow>
               if \<not> fe_kmalloc fe then Some (Inl ENOMEM, s)
               else
                 (case file_new fe p of
                    None \<Rightarrow> None
                  | Some file \<Rightarrow>
                      Some (ret0, AEGIS_INFO (''Protected file added: '' @ cstr p @ '' (hash='' @
                        (if pf_hash_valid file then ''valid'' else ''pending'') @ '')'')
                        (file_add_commit file s)))))"

definition aegis_protected_file_del ::
    "string option \<Rightarrow> aegis_state \<Rightarrow> cret \<times> aegis_state" where
  "aegis_protected_file_del path s =
     (case path of
        None \<Rightarrow> (Inl EINVAL, s)
      | Some p \<Rightarrow>
          (case del_first (file_hit p) (protected_files s) of
             None \<Rightarrow> (Inl ENOENT, s)
           | Some fs \<Rightarrow>
               (ret0, AEGIS_INFO (''Protected file removed: '' @ cstr p)
                  (s\<lparr>protected_files := fs,
                     protected_file_count := protected_file_count s - 1\<rparr>))))"

definition aegis_file_init :: "aegis_state \<Rightarrow> cret \<times> aegis_state" where
  "aegis_file_init s = (ret0, s\<lparr>protected_file_count := 0\<rparr>)"

definition aegis_file_exit :: "aegis_state \<Rightarrow> aegis_state" where
  "aegis_file_exit s = s\<lparr>protected_files := [], protected_file_count := 0\<rparr>"

definition aegis_protected_file_count :: "aegis_state \<Rightarrow> int" where
  "aegis_protected_file_count s = protected_file_count s"

definition aegis_is_file_protected :: "string option \<Rightarrow> aegis_state \<Rightarrow> bool" where
  "aegis_is_file_protected path s =
     (case path of
        None \<Rightarrow> False
      | Some p \<Rightarrow>
          if \<not> AEGIS_FEATURE_CHECK AEGIS_FEATURE_FILE_INTEGRITY s then False
          else list_ex (file_hit p) (protected_files s))"

definition file_hash_str :: "aegis_protected_file \<Rightarrow> string" where
  "file_hash_str entry =
     (if pf_hash_valid entry
      then concat (map (\<lambda>i. fmt_02x (pf_hash entry ! i)) [0..<AEGIS_HASH_SIZE])
      else ''<pending>'')"

definition aegis_protected_file_show :: "aegis_state \<Rightarrow> string" where
  "aegis_protected_file_show s =
     ''AEGIS Protected Files ('' @ fmt_d (protected_file_count s) @ '' entries):'' @ [LF] @
     pad_right 40 ''PATH'' @ '' HASH'' @ [LF] @
     pad_right 40 ''----'' @ '' ----'' @ [LF] @
     concat (map (\<lambda>entry. pad_right 40 (cstr (pf_path entry)) @ '' '' @ file_hash_str entry @ [LF])
                 (protected_files s))"

lemmas file_defs [aegis_defs] =
  aegis_protected_file_add_def aegis_protected_file_del_def file_add_check_def file_add_commit_def


section \<open>The list keeps its contract\<close>

definition file_wfe :: "aegis_protected_file \<Rightarrow> bool" where
  "file_wfe e \<longleftrightarrow> length (pf_path e) = AEGIS_PATH_LEN \<and> length (cstr (pf_path e)) < AEGIS_PATH_LEN"

definition file_key :: "aegis_protected_file \<Rightarrow> string" where
  "file_key e = cstr (pf_path e)"

definition file_built :: "string \<Rightarrow> aegis_protected_file \<Rightarrow> bool" where
  "file_built path e \<longleftrightarrow> pf_path e = strscpy (memset0 AEGIS_PATH_LEN) path AEGIS_PATH_LEN"

definition file_valid :: "string \<Rightarrow> bool" where
  "file_valid path \<longleftrightarrow> length (cstr path) < AEGIS_PATH_LEN"

definition files_wf :: "aegis_state \<Rightarrow> bool" where
  "files_wf s \<longleftrightarrow>
     reg_wf AEGIS_MAX_PROTECTED_FILES file_wfe file_key (protected_files s) (protected_file_count s)"

lemma file_new_built: "file_new fe path = Some e \<Longrightarrow> file_built path e"
  by (auto simp: file_new_def file_built_def Let_def
      split: option.splits sum.splits prod.splits)

interpretation fl: policy_list protected_files protected_file_count AEGIS_MAX_PROTECTED_FILES
  file_hit file_add_check file_built file_add_commit
  "\<lambda>p. aegis_protected_file_del (Some p)" file_key cstr file_valid file_wfe
proof (unfold_locales, goal_cases)
  case (6 e k)
  then show ?case
    by (auto simp: file_hit_def file_wfe_def file_key_def strncmp_terminated)
next
  case (7 k e)
  then show ?case
    by (simp add: file_built_def file_wfe_def length_strscpy cstr_strscpy aegis_consts)
next
  case (8 k e)
  then show ?case
    by (simp add: file_built_def file_key_def file_valid_def cstr_strscpy aegis_consts)
qed (simp_all add: file_defs)

lemma files_wf_add:
  assumes "files_wf s" "file_valid p" "aegis_protected_file_add fe (Some p) s = Some (r, t)"
  shows "files_wf t"
proof (cases "file_add_check p s")
  case (Inl e)
  then show ?thesis using assms by (simp add: aegis_protected_file_add_def)
next
  case (Inr n)
  then have ok: "file_add_check p s = ret0" by (auto simp: file_add_check_def split: if_splits)
  show ?thesis
  proof (cases "fe_kmalloc fe")
    case True
    with ok assms(3) obtain e m where e: "file_new fe p = Some e"
      and t: "t = AEGIS_INFO m (file_add_commit e s)"
      by (auto simp: aegis_protected_file_add_def split: option.splits)
    show ?thesis
      using fl.commit_wf [OF _ ok file_new_built [OF e] assms(2)] assms(1)
      by (simp add: files_wf_def t)
  next
    case False
    then show ?thesis using ok assms by (simp add: aegis_protected_file_add_def)
  qed
qed

lemma files_wf_del:
  "files_wf s \<Longrightarrow> files_wf (snd (aegis_protected_file_del p s))"
  using fl.del_wf [of s "the p"]
  by (cases p) (auto simp: files_wf_def aegis_protected_file_del_def)

lemma file_add_frame [frame]:
  assumes "aegis_protected_file_add fe p s = Some (r, t)"
  shows "aegis_cfg t = aegis_cfg s" "protected_procs t = protected_procs s"
    "protected_proc_count t = protected_proc_count s" "blocked_syscalls t = blocked_syscalls s"
    "blocked_syscall_count t = blocked_syscall_count s"
  using assms
  by (auto simp: aegis_protected_file_add_def file_add_commit_def
      split: option.splits sum.splits if_splits)

lemma file_del_frame [frame, simp]:
  "aegis_cfg (snd (aegis_protected_file_del p s)) = aegis_cfg s"
  "protected_procs (snd (aegis_protected_file_del p s)) = protected_procs s"
  "protected_proc_count (snd (aegis_protected_file_del p s)) = protected_proc_count s"
  "blocked_syscalls (snd (aegis_protected_file_del p s)) = blocked_syscalls s"
  "blocked_syscall_count (snd (aegis_protected_file_del p s)) = blocked_syscall_count s"
  by (auto simp: aegis_protected_file_del_def split: option.splits)

text \<open>The set of protected paths, and the test in its terms: exact equality of path strings.\<close>

definition file_keys :: "aegis_state \<Rightarrow> string set" where
  "file_keys s = file_key ` set (protected_files s)"

lemma file_hit_keys:
  "files_wf s \<Longrightarrow> list_ex (file_hit p) (protected_files s) \<longleftrightarrow> cstr p \<in> file_keys s"
  using fl.hit_iff_key [of "protected_files s" p]
  by (simp add: files_wf_def reg_wf_def file_keys_def)

lemma is_file_protected_iff:
  "files_wf s \<Longrightarrow> aegis_is_file_protected (Some p) s \<longleftrightarrow>
     AEGIS_FEATURE_CHECK AEGIS_FEATURE_FILE_INTEGRITY s \<and> cstr p \<in> file_keys s"
  by (simp add: aegis_is_file_protected_def file_hit_keys)

lemma file_add_refines:
  assumes "files_wf s" "file_valid p"
    and "aegis_protected_file_add fe (Some p) s = Some (r, t)"
  shows "(r, file_keys t) =
    bset_insert (fe_kmalloc fe) AEGIS_MAX_PROTECTED_FILES (cstr p) (file_keys s)"
proof -
  have wf: "reg_wf AEGIS_MAX_PROTECTED_FILES file_wfe file_key (protected_files s)
      (protected_file_count s)"
    using assms(1) by (simp add: files_wf_def)
  show ?thesis
  proof (cases "file_add_check p s = ret0 \<and> fe_kmalloc fe")
    case True
    with assms(3) obtain e m where e: "file_new fe p = Some e"
      and t: "r = ret0" "t = AEGIS_INFO m (file_add_commit e s)"
      by (auto simp: aegis_protected_file_add_def split: option.splits)
    from True fl.refine_commit [OF wf _ file_new_built [OF e] assms(2)] show ?thesis
      by (simp add: t file_keys_def bset_insert_def)
  next
    case False
    then have "t = s" "r = (case file_add_check p s of Inl e \<Rightarrow> Inl e | Inr _ \<Rightarrow> Inl ENOMEM)"
      using assms(3) by (auto simp: aegis_protected_file_add_def file_add_check_def split: if_splits)
    then show ?thesis
      using False fl.refine_check [OF wf, of p]
      by (auto simp: file_keys_def bset_insert_def bset_add_def split: if_splits)
  qed
qed

lemma file_del_refines:
  assumes "files_wf s" "aegis_protected_file_del (Some p) s = (r, t)"
  shows "(r, file_keys t) = bset_del (cstr p) (file_keys s)"
  using fl.refine_del [of s p] assms by (simp add: files_wf_def file_keys_def)


section \<open>Additions return\<close>

lemma file_new_returns:
  assumes "\<And>q rd. fe_kern_path fe (cstr p) = Inr q \<Longrightarrow> fe_dentry_open fe q = Inr rd \<Longrightarrow>
    finite_reader rd"
  shows "\<exists>e. file_new fe p = Some e"
proof -
  have ends: "aegis_compute_file_hash (fe_hash fe) (Some rd) True \<noteq> None"
    if "fe_kern_path fe (cstr p) = Inr q" "fe_dentry_open fe q = Inr rd" for q rd
    using assms [OF that] compute_hash_returns [of "Some rd" "fe_hash fe" True] by auto
  show ?thesis
    by (auto simp: file_new_def Let_def dest: ends split: option.split sum.split prod.split)
qed

lemma file_add_returns:
  assumes "\<And>q rd. fe_dentry_open fe q = Inr rd \<Longrightarrow> finite_reader rd"
  shows "\<exists>r t. aegis_protected_file_add fe (Some p) s = Some (r, t)"
  using file_new_returns [of fe p] assms
  by (auto simp: aegis_protected_file_add_def split: sum.split)

lemma file_new_returns_iff:
  assumes "fe_kern_path fe (cstr p) = Inr q" "fe_dentry_open fe q = Inr rd"
    and h: "streaming_hash (fe_hash fe) absorb d0 digest"
  shows "(\<exists>e. file_new fe p = Some e) \<longleftrightarrow> finite_reader rd"
proof -
  let ?loop = "hash_loop rd (crypto_shash_update (fe_hash fe)) d0 0"
  have "(\<exists>r. ?loop = Some r) \<longleftrightarrow> finite_reader rd"
    using h by (intro hash_loop_returns_iff) (simp add: streaming_hash_def)
  moreover have "aegis_compute_file_hash (fe_hash fe) (Some rd) True = None \<longleftrightarrow> ?loop = None"
    using h
    by (auto simp: aegis_compute_file_hash_def streaming_hash_def Let_def
        split: option.split sum.split)
  moreover have "file_new fe p = None \<longleftrightarrow>
      aegis_compute_file_hash (fe_hash fe) (Some rd) True = None"
    using assms(1,2) by (auto simp: file_new_def Let_def split: option.split sum.split)
  ultimately show ?thesis by auto
qed

text \<open>What the new entry's digest is.\<close>

lemma file_new_valid:
  assumes "file_new fe p = Some e"
  shows "pf_hash_valid e \<longleftrightarrow>
    (\<exists>q rd h ops. fe_kern_path fe (cstr p) = Inr q \<and> fe_dentry_open fe q = Inr rd \<and>
       aegis_compute_file_hash (fe_hash fe) (Some rd) True = Some (Inr h, ops))"
  using assms by (auto simp: file_new_def Let_def split: option.splits sum.splits prod.splits)

lemma file_new_unreadable:
  assumes "file_new fe p = Some e" "fe_kern_path fe (cstr p) = Inr q"
    "fe_dentry_open fe q = Inr rd" "rd 0 = Inl err"
  shows "\<not> pf_hash_valid e"
proof -
  have "hash_loop rd upd d 0 = Some (Inl err)" for upd and d :: 'a
    using assms(4) by (subst hash_loop.simps) simp
  then have "aegis_compute_file_hash (fe_hash fe) (Some rd) True \<noteq> Some (Inr h, ops)" for h ops
    by (auto simp: aegis_compute_file_hash_def hash_exits Let_def
        split: option.splits sum.splits if_splits)
  with assms(2,3) file_new_valid [OF assms(1)] show ?thesis by auto
qed

lemma file_new_digest:
  assumes "file_new fe p = Some e" "fe_kern_path fe (cstr p) = Inr q"
    "fe_dentry_open fe q = Inr rd"
    and "streaming_hash (fe_hash fe) absorb d0 digest" "reads_file c rd"
  shows "pf_hash_valid e \<and> pf_hash e = digest c"
  using compute_hash_digest [OF assms(4,5)] assms(1-3)
  by (auto simp: file_new_def Let_def)

lemma files_wf_statics [simp]: "files_wf aegis_statics"
  by (simp add: files_wf_def)

section \<open>The listing\<close>

text \<open>Reading a digest back from its hexadecimal form.\<close>

definition hex_val :: "char \<Rightarrow> nat" where
  "hex_val c = (let n = of_char c in if n < 58 then n - 48 else n - 87)"

fun unhex :: "string \<Rightarrow> 8 word list" where
  "unhex (a # b # cs) = word_of_nat (16 * hex_val a + hex_val b) # unhex cs"
| "unhex _ = []"

lemma hex_digit: "d < 16 \<Longrightarrow> hex_val (digit_char d) = d"
proof -
  have "list_all (\<lambda>d. hex_val (digit_char d) = d) [0..<16]"
    by code_simp
  then show "d < 16 \<Longrightarrow> hex_val (digit_char d) = d"
    by (simp add: list_all_iff)
qed

lemma fmt_02x_digits: "fmt_02x b = [digit_char (unat b div 16), digit_char (unat b mod 16)]"
proof -
  have n: "unat b < 256" using unsigned_less [of b] by simp
  show ?thesis
  proof (cases "unat b < 16")
    case True
    then show ?thesis
      by (simp add: fmt_02x_def fmt_x_def pad_left_def num_base.simps [of 16] digit_char_def)
  next
    case False
    with n have "unat b div 16 < 16" by auto
    with False show ?thesis
      by (simp add: fmt_02x_def fmt_x_def pad_left_def num_base.simps [of 16])
  qed
qed

lemma unhex_02x: "unhex (fmt_02x b @ cs) = b # unhex cs"
proof -
  have "unat b div 16 < 16" using unsigned_less [of b, where ?'a = nat] by auto
  then show ?thesis by (simp add: fmt_02x_digits hex_digit)
qed

lemma unhex_concat: "unhex (concat (map (\<lambda>i. fmt_02x (h ! i)) is)) = map ((!) h) is"
  by (induction "is") (simp_all add: unhex_02x)

text \<open>An entry without the digest bytes of a digest that was never computed.\<close>

definition shown_part :: "aegis_protected_file \<Rightarrow> string \<times> bool \<times> 8 word list" where
  "shown_part e = (cstr (pf_path e), pf_hash_valid e, if pf_hash_valid e then pf_hash e else [])"

fun render_row :: "string \<times> bool \<times> 8 word list \<Rightarrow> string" where
  "render_row (path, valid, h) =
     pad_right 40 path @ '' '' @
     (if valid then concat (map (\<lambda>i. fmt_02x (h ! i)) [0..<AEGIS_HASH_SIZE]) else ''<pending>'') @
     [LF]"

lemma row_shown:
  "pad_right 40 (cstr (pf_path e)) @ '' '' @ file_hash_str e @ [LF] = render_row (shown_part e)"
  by (simp add: shown_part_def file_hash_str_def)

lemma rows_shown:
  "map (\<lambda>e. pad_right 40 (cstr (pf_path e)) @ '' '' @ file_hash_str e @ [LF]) es =
   map render_row (map shown_part es)"
  by (simp only: row_shown map_map comp_def)


section \<open>A concrete file system\<close>

text \<open>An environment with one file, for evaluation.\<close>

definition demo_fe :: "reader \<Rightarrow> (8 word list, unit) file_env" where
  "demo_fe rd =
     \<lparr>fe_kmalloc = True, fe_junk = [], fe_kern_path = (\<lambda>_. Inr ()),
      fe_dentry_open = (\<lambda>_. Inr rd), fe_hash = demo_hash\<rparr>"

lemma demo_fe_fields [simp]:
  "fe_kmalloc (demo_fe rd)" "fe_kern_path (demo_fe rd) p = Inr ()"
  "fe_dentry_open (demo_fe rd) q = Inr rd" "fe_hash (demo_fe rd) = demo_hash"
  by (simp_all add: demo_fe_def)


section \<open>Properties\<close>

text \<open>
  C14: The file list implements a set of at most 128 paths. When every file that can be opened
  ends, adding a path shorter than 256 bytes to a well-formed list returns, answers and changes
  the set as the abstract bounded set does, and keeps the list well formed, whatever the digest
  computation gives; removal likewise.
\<close>

theorem file_list_refines_set:
  assumes "files_wf s" and "file_valid p"
    and "\<forall>q rd. fe_dentry_open fe q = Inr rd \<longrightarrow> finite_reader rd"
  shows "(\<exists>r t. aegis_protected_file_add fe (Some p) s = Some (r, t) \<and> files_wf t \<and>
            (r, file_keys t) =
              bset_insert (fe_kmalloc fe) AEGIS_MAX_PROTECTED_FILES (cstr p) (file_keys s)) \<and>
         (case aegis_protected_file_del (Some p) s of (r, t) \<Rightarrow>
            files_wf t \<and> (r, file_keys t) = bset_del (cstr p) (file_keys s))"
proof
  obtain r t where "aegis_protected_file_add fe (Some p) s = Some (r, t)"
    using file_add_returns [of fe p s] assms(3) by blast
  then show "\<exists>r t. aegis_protected_file_add fe (Some p) s = Some (r, t) \<and> files_wf t \<and>
      (r, file_keys t) =
        bset_insert (fe_kmalloc fe) AEGIS_MAX_PROTECTED_FILES (cstr p) (file_keys s)"
    using files_wf_add [OF assms(1,2)] file_add_refines [OF assms(1,2)] by blast
  show "case aegis_protected_file_del (Some p) s of (r, t) \<Rightarrow>
      files_wf t \<and> (r, file_keys t) = bset_del (cstr p) (file_keys s)"
    using files_wf_del [OF assms(1), of "Some p"] file_del_refines [OF assms(1), of p]
    by (auto split: prod.split)
qed

theorem file_list_refines_set_witness:
  "files_wf aegis_statics \<and> file_valid ''/etc/shadow'' \<and>
   finite_reader (chunk_reader [7, 8, 9, 10]) \<and>
   (\<exists>r t. aegis_protected_file_add (demo_fe (chunk_reader [7, 8, 9, 10])) (Some ''/etc/shadow'')
        aegis_statics = Some (r, t) \<and>
      (r, file_keys t) = (ret0, {''/etc/shadow''}))"
proof -
  have v: "file_valid ''/etc/shadow''"
    by (simp add: file_valid_def cstr_Cons AEGIS_PATH_LEN_def)
  have fin: "\<forall>q rd. fe_dentry_open (demo_fe (chunk_reader [7, 8, 9, 10])) q = Inr rd \<longrightarrow>
      finite_reader rd"
    using reads_file_finite [OF chunk_reader_reads, of "[7, 8, 9, 10]"] by simp
  show ?thesis
    using file_list_refines_set [OF files_wf_statics v fin] v fin
    by (auto simp: bset_insert_def bset_add_def file_keys_def AEGIS_MAX_PROTECTED_FILES_def cstr_Cons)
qed

text \<open>
  C19: What an addition records. When the checks pass and the entry is allocated, and the file
  the path opens (if any) ends, a path shorter than 256 bytes is appended as given. Its digest is
  marked valid exactly when the path resolves, opens, and the digest computation succeeds;
  otherwise the entry is added all the same with its digest pending, in particular when the first
  read of the opened file fails (a directory). When the crypto layer is a streaming hash that
  does not fail and the reads give the file's contents, the recorded digest is the digest of
  these contents.
\<close>

theorem file_add_records_digest:
  assumes "file_add_check p s = ret0" and "fe_kmalloc fe" and "file_valid p"
    and "\<forall>q rd. fe_kern_path fe (cstr p) = Inr q \<and> fe_dentry_open fe q = Inr rd \<longrightarrow>
      finite_reader rd"
  shows "\<exists>t e. aegis_protected_file_add fe (Some p) s = Some (ret0, t) \<and>
    protected_files t = protected_files s @ [e] \<and> cstr (pf_path e) = cstr p \<and>
    (pf_hash_valid e \<longleftrightarrow>
       (\<exists>q rd h ops. fe_kern_path fe (cstr p) = Inr q \<and> fe_dentry_open fe q = Inr rd \<and>
          aegis_compute_file_hash (fe_hash fe) (Some rd) True = Some (Inr h, ops))) \<and>
    (\<forall>q rd. fe_kern_path fe (cstr p) = Inr q \<and> fe_dentry_open fe q = Inr rd \<longrightarrow>
       ((\<exists>err. rd 0 = Inl err) \<longrightarrow> \<not> pf_hash_valid e) \<and>
       (\<forall>absorb d0 digest c. streaming_hash (fe_hash fe) absorb d0 digest \<and> reads_file c rd \<longrightarrow>
          pf_hash_valid e \<and> pf_hash e = digest c))"
proof -
  obtain e where e: "file_new fe p = Some e"
    using file_new_returns [of fe p] assms(4) by blast
  have "cstr (pf_path e) = cstr p"
    using file_new_built [OF e] assms(3)
    by (simp add: file_built_def file_valid_def cstr_strscpy aegis_consts)
  moreover obtain t where "aegis_protected_file_add fe (Some p) s = Some (ret0, t)"
    "protected_files t = protected_files s @ [e]"
    using assms(1,2) e by (auto simp: aegis_protected_file_add_def file_add_commit_def)
  ultimately show ?thesis
    using file_new_valid [OF e] file_new_unreadable [OF e] file_new_digest [OF e] by blast
qed

theorem file_add_records_digest_witness:
  "file_add_check ''/etc/shadow'' aegis_statics = ret0 \<and>
   (\<exists>t e. aegis_protected_file_add (demo_fe (chunk_reader [7, 8])) (Some ''/etc/shadow'')
       aegis_statics = Some (ret0, t) \<and>
     protected_files t = [e] \<and> pf_hash_valid e \<and> pf_hash e = 2 # 15 # replicate 30 0) \<and>
   (\<exists>t e. aegis_protected_file_add (demo_fe (\<lambda>_. Inl (Eother 21))) (Some ''/etc/shadow'')
       aegis_statics = Some (ret0, t) \<and>
     protected_files t = [e] \<and> \<not> pf_hash_valid e)"
proof -
  have c: "file_add_check ''/etc/shadow'' aegis_statics = ret0"
    by (simp add: file_add_check_def AEGIS_MAX_PROTECTED_FILES_def)
  have v: "file_valid ''/etc/shadow''"
    by (simp add: file_valid_def cstr_Cons AEGIS_PATH_LEN_def)
  have rd: "reads_file [7, 8] (chunk_reader [7, 8])" by (simp add: chunk_reader_reads)
  have dir: "finite_reader (\<lambda>_. Inl (Eother 21))"
    by (auto simp: finite_reader_def intro: exI [of _ 1])
  have "\<exists>t e. aegis_protected_file_add (demo_fe (chunk_reader [7, 8])) (Some ''/etc/shadow'')
       aegis_statics = Some (ret0, t) \<and>
     protected_files t = [e] \<and> pf_hash_valid e \<and> pf_hash e = demo_digest [7, 8]"
    using file_add_records_digest [OF c _ v, of "demo_fe (chunk_reader [7, 8])"]
      rd demo_streaming reads_file_finite [OF rd] by simp blast
  moreover have "\<exists>t e. aegis_protected_file_add (demo_fe (\<lambda>_. Inl (Eother 21))) (Some ''/etc/shadow'')
       aegis_statics = Some (ret0, t) \<and>
     protected_files t = [e] \<and> \<not> pf_hash_valid e"
    using file_add_records_digest [OF c _ v, of "demo_fe (\<lambda>_. Inl (Eother 21))"] dir by simp blast
  ultimately show ?thesis using c by (simp add: demo_digest_def)
qed

text \<open>
  C38: The digest loop has no bound of its own. When the checks pass, the entry is allocated, the
  path resolves and opens, and the crypto layer does not fail, an addition returns exactly when
  the reads of the file come to an end. They do for every file that is read like a regular one
  (a read moves the signed 64-bit position by what it gave, at most a page, and a negative
  position is refused), however long; they do not for a device that gives bytes and leaves the
  position where it was (as \<open>/dev/zero\<close> does): adding such a path never returns, it neither
  fails nor adds the entry.
\<close>

theorem file_add_returns_iff_file_ends:
  assumes "file_add_check p s = ret0" and "fe_kmalloc fe"
    and "fe_kern_path fe (cstr p) = Inr q" and "fe_dentry_open fe q = Inr rd"
    and "streaming_hash (fe_hash fe) absorb d0 digest"
  shows "((\<exists>r t. aegis_protected_file_add fe (Some p) s = Some (r, t)) \<longleftrightarrow> finite_reader rd) \<and>
    (regular_reader rd \<longrightarrow> (\<exists>r t. aegis_protected_file_add fe (Some p) s = Some (r, t))) \<and>
    ((\<exists>b bs. rd 0 = Inr (b # bs, 0)) \<longrightarrow> aegis_protected_file_add fe (Some p) s = None)"
proof -
  have "(\<exists>e. file_new fe p = Some e) \<longleftrightarrow> finite_reader rd"
    by (rule file_new_returns_iff [OF assms(3-5)])
  then have "(\<exists>r t. aegis_protected_file_add fe (Some p) s = Some (r, t)) \<longleftrightarrow> finite_reader rd"
    using assms(1,2) by (cases "file_new fe p") (auto simp: aegis_protected_file_add_def)
  then show ?thesis
    using regular_finite [of rd] stuck_reader [of rd]
    by (cases "aegis_protected_file_add fe (Some p) s") auto
qed

theorem file_add_returns_iff_file_ends_witness:
  "file_add_check ''/dev/zero'' aegis_statics = ret0 \<and>
   aegis_protected_file_add (demo_fe (\<lambda>pos. Inr ([0], pos))) (Some ''/dev/zero'') aegis_statics =
     None \<and>
   regular_reader (\<lambda>pos. if unat pos < 2 ^ 63 then Inr ([0], pos + 1) else Inl EINVAL) \<and>
   aegis_protected_file_add
     (demo_fe (\<lambda>pos. if unat pos < 2 ^ 63 then Inr ([0], pos + 1) else Inl EINVAL))
     (Some ''/dev/zero'') aegis_statics \<noteq> None"
proof -
  let ?reg = "\<lambda>pos :: loff_t. if unat pos < 2 ^ 63 then Inr ([0], pos + 1) else Inl EINVAL"
  have c: "file_add_check ''/dev/zero'' aegis_statics = ret0"
    by (simp add: file_add_check_def AEGIS_MAX_PROTECTED_FILES_def)
  have h: "streaming_hash (fe_hash (demo_fe rd)) (@) [] demo_digest" for rd
    by (simp add: demo_streaming)
  have r: "regular_reader ?reg"
    by (auto simp: regular_reader_def PAGE_SIZE_def split: if_splits)
  show ?thesis
    using file_add_returns_iff_file_ends [OF c demo_fe_fields(1-3) h, of "\<lambda>pos. Inr ([0], pos)"]
      file_add_returns_iff_file_ends [OF c demo_fe_fields(1-3) h, of ?reg] c r
    by auto
qed

text \<open>
  The listing gives digests back exactly and leaks nothing else. For a computed 32-byte
  digest the hexadecimal column reads back to the digest, and the whole listing is a function
  of the count, the paths, the validity flags and the computed digests: the uninitialised bytes
  of a pending digest never reach the reader.
\<close>

lemma file_listing_faithful:
  "(pf_hash_valid e \<and> length (pf_hash e) = AEGIS_HASH_SIZE \<longrightarrow> unhex (file_hash_str e) = pf_hash e) \<and>
   (protected_file_count s = protected_file_count t \<and>
    map shown_part (protected_files s) = map shown_part (protected_files t) \<longrightarrow>
    aegis_protected_file_show s = aegis_protected_file_show t)"
proof -
  have "map ((!) (pf_hash e)) [0..<length (pf_hash e)] = pf_hash e" by (rule map_nth)
  then have "pf_hash_valid e \<and> length (pf_hash e) = AEGIS_HASH_SIZE \<longrightarrow>
      unhex (file_hash_str e) = pf_hash e"
    by (auto simp: file_hash_str_def unhex_concat)
  moreover have "protected_file_count s = protected_file_count t \<and>
      map shown_part (protected_files s) = map shown_part (protected_files t) \<longrightarrow>
      aegis_protected_file_show s = aegis_protected_file_show t"
    unfolding aegis_protected_file_show_def rows_shown
    by (intro impI, elim conjE) (simp only:)
  ultimately show ?thesis by blast
qed

end
