(* ===== verification/Aegis_Audit.thy ===== *)
theory Aegis_Audit
  imports Aegis_Registry
begin

text \<open>
  The syscall auditing subsystem, \<^verbatim>\<open>aegis/aegis_audit.c\<close>: the list of blocked system
  call numbers, its default contents, addition, removal, the test the loading hooks ask, and
  the listing. System call numbers are those of x86-64, the architecture of the build.
\<close>

section \<open>Operations\<close>

definition NR_init_module :: int where "NR_init_module = 175"
definition NR_delete_module :: int where "NR_delete_module = 176"
definition NR_kexec_load :: int where "NR_kexec_load = 246"
definition NR_finit_module :: int where "NR_finit_module = 313"
definition NR_kexec_file_load :: int where "NR_kexec_file_load = 320"

lemmas syscall_nrs =
  NR_init_module_def NR_delete_module_def NR_kexec_load_def NR_finit_module_def
  NR_kexec_file_load_def

definition syscall_hit :: "int \<Rightarrow> aegis_blocked_syscall \<Rightarrow> bool" where
  "syscall_hit nr sc \<longleftrightarrow> bs_syscall_nr sc = nr"

definition syscall_add_check :: "int \<Rightarrow> aegis_state \<Rightarrow> cret" where
  "syscall_add_check nr s =
     (if int AEGIS_MAX_BLOCKED_SYSCALLS \<le> blocked_syscall_count s then Inl ENOSPC
      else if list_ex (syscall_hit nr) (blocked_syscalls s) then Inl EEXIST
      else ret0)"

definition syscall_add_commit :: "aegis_blocked_syscall \<Rightarrow> aegis_state \<Rightarrow> aegis_state" where
  "syscall_add_commit sc s =
     s\<lparr>blocked_syscalls := blocked_syscalls s @ [sc],
       blocked_syscall_count := blocked_syscall_count s + 1\<rparr>"

definition aegis_syscall_block_add :: "bool \<Rightarrow> int \<Rightarrow> aegis_state \<Rightarrow> cret \<times> aegis_state" where
  "aegis_syscall_block_add kmalloc nr s =
     (if nr < 0 then (Inl EINVAL, s)
      else
        (case syscall_add_check nr s of
           Inl e \<Rightarrow> (Inl e, s)
         | Inr _ \<Rightarrow>
             if \<not> kmalloc then (Inl ENOMEM, s)
             else
               (ret0, AEGIS_INFO (''Blocked syscall added: '' @ fmt_d nr)
                  (syscall_add_commit \<lparr>bs_syscall_nr = nr\<rparr> s))))"

definition aegis_syscall_block_del :: "int \<Rightarrow> aegis_state \<Rightarrow> cret \<times> aegis_state" where
  "aegis_syscall_block_del nr s =
     (case del_first (syscall_hit nr) (blocked_syscalls s) of
        None \<Rightarrow> (Inl ENOENT, s)
      | Some scs \<Rightarrow>
          (ret0, AEGIS_INFO (''Blocked syscall removed: '' @ fmt_d nr)
             (s\<lparr>blocked_syscalls := scs, blocked_syscall_count := blocked_syscall_count s - 1\<rparr>)))"

definition aegis_is_syscall_blocked :: "int \<Rightarrow> aegis_state \<Rightarrow> bool" where
  "aegis_is_syscall_blocked nr s =
     (if \<not> AEGIS_FEATURE_CHECK AEGIS_FEATURE_SYSCALL_AUDIT s then False
      else if \<not> syscall_audit_enable (aegis_cfg s) then False
      else list_ex (syscall_hit nr) (blocked_syscalls s))"

text \<open>The five additions of the initialisation; the list gives the outcomes of their allocations.\<close>

fun syscall_add_all :: "(bool \<times> int) list \<Rightarrow> aegis_state \<Rightarrow> aegis_state" where
  "syscall_add_all [] s = s"
| "syscall_add_all ((km, nr) # rest) s =
     syscall_add_all rest (snd (aegis_syscall_block_add km nr s))"

definition aegis_audit_init ::
    "bool \<times> bool \<times> bool \<times> bool \<times> bool \<Rightarrow> aegis_state \<Rightarrow> cret \<times> aegis_state" where
  "aegis_audit_init kmallocs s =
     (let (k1, k2, k3, k4, k5) = kmallocs in
      (ret0, syscall_add_all
         [(k1, NR_kexec_load), (k2, NR_kexec_file_load), (k3, NR_init_module),
          (k4, NR_finit_module), (k5, NR_delete_module)]
         (s\<lparr>blocked_syscall_count := 0\<rparr>)))"

definition aegis_audit_exit :: "aegis_state \<Rightarrow> aegis_state" where
  "aegis_audit_exit s = s\<lparr>blocked_syscalls := [], blocked_syscall_count := 0\<rparr>"

definition aegis_blocked_syscall_show :: "aegis_state \<Rightarrow> string" where
  "aegis_blocked_syscall_show s =
     ''AEGIS Blocked Syscalls ('' @ fmt_d (blocked_syscall_count s) @ '' entries):'' @ [LF] @
     pad_left (CHR '' '') 8 ''NR'' @ [LF] @
     pad_left (CHR '' '') 8 ''--'' @ [LF] @
     concat (map (\<lambda>entry. pad_left (CHR '' '') 8 (fmt_d (bs_syscall_nr entry)) @ [LF])
                 (blocked_syscalls s))"

lemmas syscall_defs [aegis_defs] =
  aegis_syscall_block_add_def aegis_syscall_block_del_def syscall_add_check_def
  syscall_add_commit_def


section \<open>The list keeps its contract\<close>

definition syscall_wfe :: "aegis_blocked_syscall \<Rightarrow> bool" where
  "syscall_wfe e \<longleftrightarrow> 0 \<le> bs_syscall_nr e"

definition syscall_built :: "int \<Rightarrow> aegis_blocked_syscall \<Rightarrow> bool" where
  "syscall_built nr e \<longleftrightarrow> 0 \<le> nr \<and> e = \<lparr>bs_syscall_nr = nr\<rparr>"

definition syscalls_wf :: "aegis_state \<Rightarrow> bool" where
  "syscalls_wf s \<longleftrightarrow>
     reg_wf AEGIS_MAX_BLOCKED_SYSCALLS syscall_wfe bs_syscall_nr (blocked_syscalls s)
       (blocked_syscall_count s)"

interpretation sl: policy_list blocked_syscalls blocked_syscall_count AEGIS_MAX_BLOCKED_SYSCALLS
  syscall_hit syscall_add_check syscall_built syscall_add_commit aegis_syscall_block_del
  bs_syscall_nr id "\<lambda>_. True" syscall_wfe
  by unfold_locales (auto simp: syscall_defs syscall_hit_def syscall_built_def syscall_wfe_def)

lemma syscalls_wf_add:
  assumes "syscalls_wf s"
  shows "syscalls_wf (snd (aegis_syscall_block_add km nr s))"
proof (cases "0 \<le> nr \<and> syscall_add_check nr s = ret0 \<and> km")
  case True
  then have "syscalls_wf (syscall_add_commit \<lparr>bs_syscall_nr = nr\<rparr> s)"
    using sl.commit_wf [of s nr "\<lparr>bs_syscall_nr = nr\<rparr>"] assms
    by (simp add: syscalls_wf_def syscall_built_def)
  with True show ?thesis
    by (simp add: aegis_syscall_block_add_def syscalls_wf_def)
next
  case False
  then show ?thesis
    using assms by (auto simp: aegis_syscall_block_add_def syscall_add_check_def)
qed

lemma syscalls_wf_del: "syscalls_wf s \<Longrightarrow> syscalls_wf (snd (aegis_syscall_block_del nr s))"
  using sl.del_wf [of s nr] by (simp add: syscalls_wf_def)

lemma syscall_add_frame [frame, simp]:
  "aegis_cfg (snd (aegis_syscall_block_add km nr s)) = aegis_cfg s"
  "protected_procs (snd (aegis_syscall_block_add km nr s)) = protected_procs s"
  "protected_proc_count (snd (aegis_syscall_block_add km nr s)) = protected_proc_count s"
  "protected_files (snd (aegis_syscall_block_add km nr s)) = protected_files s"
  "protected_file_count (snd (aegis_syscall_block_add km nr s)) = protected_file_count s"
  by (auto simp: aegis_syscall_block_add_def syscall_add_commit_def split: sum.splits)

lemma syscall_del_frame [frame, simp]:
  "aegis_cfg (snd (aegis_syscall_block_del nr s)) = aegis_cfg s"
  "protected_procs (snd (aegis_syscall_block_del nr s)) = protected_procs s"
  "protected_proc_count (snd (aegis_syscall_block_del nr s)) = protected_proc_count s"
  "protected_files (snd (aegis_syscall_block_del nr s)) = protected_files s"
  "protected_file_count (snd (aegis_syscall_block_del nr s)) = protected_file_count s"
  by (auto simp: aegis_syscall_block_del_def split: option.splits)

text \<open>The set of blocked numbers.\<close>

definition blocked_set :: "aegis_state \<Rightarrow> int set" where
  "blocked_set s = bs_syscall_nr ` set (blocked_syscalls s)"

lemma is_syscall_blocked_iff:
  "aegis_is_syscall_blocked nr s \<longleftrightarrow>
     AEGIS_FEATURE_CHECK AEGIS_FEATURE_SYSCALL_AUDIT s \<and> syscall_audit_enable (aegis_cfg s) \<and>
     nr \<in> blocked_set s"
  by (auto simp: aegis_is_syscall_blocked_def list_ex_iff syscall_hit_def blocked_set_def)

lemma syscall_add_refines:
  assumes "syscalls_wf s" "0 \<le> nr" "aegis_syscall_block_add km nr s = (r, t)"
  shows "(r, blocked_set t) = bset_insert km AEGIS_MAX_BLOCKED_SYSCALLS nr (blocked_set s)"
proof -
  have wf: "reg_wf AEGIS_MAX_BLOCKED_SYSCALLS syscall_wfe bs_syscall_nr (blocked_syscalls s)
      (blocked_syscall_count s)"
    using assms(1) by (simp add: syscalls_wf_def)
  show ?thesis
  proof (cases "syscall_add_check nr s")
    case (Inl e)
    then show ?thesis
      using sl.refine_reject [OF wf Inl] assms(2,3)
      by (auto simp: aegis_syscall_block_add_def blocked_set_def bset_insert_def dest: sym)
  next
    case (Inr n)
    then have ok: "syscall_add_check nr s = ret0"
      by (auto simp: syscall_add_check_def split: if_splits)
    have "syscall_built nr \<lparr>bs_syscall_nr = nr\<rparr>" using assms(2) by (simp add: syscall_built_def)
    from sl.refine_commit [OF wf ok this] show ?thesis
      using assms(2,3) ok
      by (auto simp: aegis_syscall_block_add_def blocked_set_def bset_insert_def dest: sym
          split: if_splits)
  qed
qed

lemma syscall_del_refines:
  assumes "syscalls_wf s" "aegis_syscall_block_del nr s = (r, t)"
  shows "(r, blocked_set t) = bset_del nr (blocked_set s)"
  using sl.refine_del [of s nr] assms by (simp add: syscalls_wf_def blocked_set_def)

lemma syscalls_wf_statics [simp]: "syscalls_wf aegis_statics"
  by (simp add: syscalls_wf_def)


section \<open>The listing\<close>

text \<open>The numbers of a listing: its lines after the three header lines, as numbers.\<close>

fun lines_of :: "string \<Rightarrow> string \<Rightarrow> string list" where
  "lines_of cur [] = (if cur = [] then [] else [cur])"
| "lines_of cur (c # cs) = (if c = LF then cur # lines_of [] cs else lines_of (cur @ [c]) cs)"

definition listed_numbers :: "string \<Rightarrow> (errno + int) list" where
  "listed_numbers txt = map (\<lambda>l. kstrtoint (skip_spaces l)) (drop 3 (lines_of [] txt))"

lemma lines_of_line: "LF \<notin> set l \<Longrightarrow> lines_of cur (l @ LF # cs) = (cur @ l) # lines_of [] cs"
  by (induction l arbitrary: cur) auto

lemma lines_of_concat:
  "\<forall>x\<in>set xs. LF \<notin> set (g x) \<Longrightarrow> lines_of [] (concat (map (\<lambda>x. g x @ [LF]) xs)) = map g xs"
  by (induction xs) (simp_all add: lines_of_line)

lemma fmt_d_no_LF: "LF \<notin> set (fmt_d i)"
proof -
  have "isspace LF" by (simp add: isspace_def)
  then show ?thesis using fmt_d_no_space_NUL [of i] by blast
qed

lemma pad_left_no_LF: "LF \<notin> set l \<Longrightarrow> LF \<notin> set (pad_left (CHR '' '') w l)"
  by (auto simp: pad_left_def)

lemma skip_spaces_pad: "skip_spaces (pad_left (CHR '' '') w (fmt_d i)) = fmt_d i"
proof -
  have "dropWhile isspace (replicate n (CHR '' '') @ fmt_d i) = dropWhile isspace (fmt_d i)" for n
    by (induction n) simp_all
  then show ?thesis
    using skip_spaces_head [OF fmt_d_nonempty, of i "[]"] fmt_d_no_space_NUL [of i]
    by (simp add: pad_left_def skip_spaces_def)
qed

lemma show_lines:
  "drop 3 (lines_of [] (aegis_blocked_syscall_show s)) =
   map (\<lambda>e. pad_left (CHR '' '') 8 (fmt_d (bs_syscall_nr e))) (blocked_syscalls s)"
proof -
  have 1: "LF \<notin> set (''AEGIS Blocked Syscalls ('' @ fmt_d n @ '' entries):'')" for n
    using fmt_d_no_LF [of n] by simp
  have 2: "LF \<notin> set (pad_left (CHR '' '') 8 ''NR'')" "LF \<notin> set (pad_left (CHR '' '') 8 ''--'')"
    by (simp_all add: pad_left_no_LF)
  have eq: "aegis_blocked_syscall_show s =
      (''AEGIS Blocked Syscalls ('' @ fmt_d (blocked_syscall_count s) @ '' entries):'') @ LF #
      pad_left (CHR '' '') 8 ''NR'' @ LF # pad_left (CHR '' '') 8 ''--'' @ LF #
      concat (map (\<lambda>e. pad_left (CHR '' '') 8 (fmt_d (bs_syscall_nr e)) @ [LF])
        (blocked_syscalls s))"
    unfolding aegis_blocked_syscall_show_def by simp
  show ?thesis
    unfolding eq lines_of_line [OF 1] lines_of_line [OF 2(1)] lines_of_line [OF 2(2)]
    by (simp add: lines_of_concat pad_left_no_LF fmt_d_no_LF)
qed


text \<open>The listing of the blocked numbers can be read back, in order.\<close>

lemma syscall_listing_roundtrip:
  assumes "\<forall>e\<in>set (blocked_syscalls s). int32 (bs_syscall_nr e)"
  shows "listed_numbers (aegis_blocked_syscall_show s) =
    map (\<lambda>e. Inr (bs_syscall_nr e)) (blocked_syscalls s)"
  using assms by (simp add: listed_numbers_def show_lines skip_spaces_pad kstrtoint_fmt_d)


section \<open>Properties\<close>

text \<open>
  C16: The syscall list implements a set of at most 256 non-negative numbers: addition and
  removal answer and change the set as the abstract bounded set does, a negative number is
  refused with \<open>-EINVAL\<close> and no change, and the list stays well formed.
\<close>

theorem syscall_list_refines_set:
  assumes "syscalls_wf s"
  shows "(case aegis_syscall_block_add km nr s of (r, t) \<Rightarrow>
            syscalls_wf t \<and>
            (r, blocked_set t) =
              (if nr < 0 then (Inl EINVAL, blocked_set s)
               else bset_insert km AEGIS_MAX_BLOCKED_SYSCALLS nr (blocked_set s))) \<and>
         (case aegis_syscall_block_del nr s of (r, t) \<Rightarrow>
            syscalls_wf t \<and> (r, blocked_set t) = bset_del nr (blocked_set s))"
proof -
  have "syscalls_wf (snd (aegis_syscall_block_add km nr s))"
    by (rule syscalls_wf_add [OF assms])
  moreover have "nr < 0 \<Longrightarrow> aegis_syscall_block_add km nr s = (Inl EINVAL, s)"
    by (simp add: aegis_syscall_block_add_def)
  ultimately show ?thesis
    using syscall_add_refines [OF assms, of nr km] syscalls_wf_del [OF assms, of nr]
      syscall_del_refines [OF assms, of nr]
    by (auto split: prod.split)
qed

theorem syscall_list_refines_set_witness:
  "syscalls_wf aegis_statics \<and>
   (case aegis_syscall_block_add True 165 aegis_statics of (r, t) \<Rightarrow>
      (r, blocked_set t) = (ret0, {165}))"
  using syscall_list_refines_set [OF syscalls_wf_statics, where km = True and nr = 165]
  by (auto simp: bset_insert_def bset_add_def blocked_set_def AEGIS_MAX_BLOCKED_SYSCALLS_def
      split: prod.splits)

end
