(* ===== verification/Aegis_Hooks.thy ===== *)
theory Aegis_Hooks
  imports Aegis_Process Aegis_File Aegis_Audit
begin

unbundle bit_operations_syntax

text \<open>
  The LSM hooks of \<^verbatim>\<open>aegis/aegis_lsm.c\<close> and the registered hook table. A hook takes
  what it reads of the kernel (the current task, whether a page can be allocated, the text
  \<open>d_path\<close> gives a path, the numbers of the enumerators it prints) as an environment
  record, and returns its verdict with the new state of the module: \<open>Inr 0\<close> allows,
  \<open>Inl e\<close> denies with \<open>-e\<close>.
\<close>

section \<open>The kernel side of the hooks\<close>

datatype kernel_read_file_id =
    READING_FIRMWARE | READING_MODULE | READING_KEXEC_IMAGE | READING_KEXEC_INITRAMFS
  | READING_OTHER nat

datatype kernel_load_data_id = LOADING_MODULE | LOADING_KEXEC_IMAGE | LOADING_OTHER nat

record 'p kfile =
  f_path :: 'p
  f_mode :: "32 word"

record 'p kenv =
  current :: task_struct
  get_free_page :: bool
  d_path :: "'p \<Rightarrow> errno + string"
  read_id_nr :: "kernel_read_file_id \<Rightarrow> int"
  load_id_nr :: "kernel_load_data_id \<Rightarrow> int"

text \<open>Access mask, open mode and ptrace mode bits of the kernel headers.\<close>

definition MAY_WRITE :: "32 word" where "MAY_WRITE = 2"
definition MAY_READ :: "32 word" where "MAY_READ = 4"
definition MAY_APPEND :: "32 word" where "MAY_APPEND = 8"
definition FMODE_READ :: "32 word" where "FMODE_READ = 1"
definition FMODE_WRITE :: "32 word" where "FMODE_WRITE = 2"
definition PTRACE_MODE_NOAUDIT :: "32 word" where "PTRACE_MODE_NOAUDIT = 4"

lemmas mode_bits =
  MAY_WRITE_def MAY_READ_def MAY_APPEND_def FMODE_READ_def FMODE_WRITE_def PTRACE_MODE_NOAUDIT_def

text \<open>The \<open>%s[%d]\<close> form in which the audit lines name a task.\<close>

definition task_tag :: "task_struct \<Rightarrow> string" where
  "task_tag t = cstr (task_comm t) @ ''['' @ fmt_d (task_pid t) @ '']''"


section \<open>Process and ptrace hooks\<close>

definition aegis_task_alloc :: "task_struct \<Rightarrow> 64 word \<Rightarrow> aegis_state \<Rightarrow> cret \<times> aegis_state" where
  "aegis_task_alloc task clone_flags s = (ret0, s)"

definition aegis_task_free :: "task_struct \<Rightarrow> aegis_state \<Rightarrow> aegis_state" where
  "aegis_task_free task s =
     (if \<not> enabled (aegis_cfg s) then s else AEGIS_STAT_INC total_events_update s)"

definition aegis_ptrace_access_check ::
    "'p kenv \<Rightarrow> task_struct \<Rightarrow> 32 word \<Rightarrow> aegis_state \<Rightarrow> cret \<times> aegis_state" where
  "aegis_ptrace_access_check env child mode s =
     (if \<not> AEGIS_FEATURE_CHECK AEGIS_FEATURE_PTRACE_RESTRICT s then (ret0, s)
      else if ptrace_restrict_all (aegis_cfg s) then
        let s1 = AEGIS_STAT_INC total_events_update (AEGIS_STAT_INC ptrace_blocked_update s) in
        if mode AND PTRACE_MODE_NOAUDIT \<noteq> 0 then (Inl EPERM, s1)
        else (Inl EPERM,
              AEGIS_AUDIT (''ptrace BLOCKED: '' @ task_tag (current env) @ '' -> '' @
                task_tag child @ '' (all ptrace restricted)'') s1)
      else if AEGIS_FEATURE_CHECK AEGIS_FEATURE_PROCESS_PROTECT s \<and>
              aegis_is_process_protected (Some child) s then
        (Inl EPERM,
         AEGIS_AUDIT (''ptrace BLOCKED: '' @ task_tag (current env) @ '' -> PROTECTED '' @
           task_tag child)
           (AEGIS_STAT_INC total_events_update (AEGIS_STAT_INC ptrace_blocked_update s)))
      else (ret0, s))"

definition aegis_ptrace_traceme ::
    "'p kenv \<Rightarrow> task_struct \<Rightarrow> aegis_state \<Rightarrow> cret \<times> aegis_state" where
  "aegis_ptrace_traceme env parent s =
     (if \<not> AEGIS_FEATURE_CHECK AEGIS_FEATURE_PTRACE_RESTRICT s then (ret0, s)
      else if ptrace_restrict_all (aegis_cfg s) then
        (Inl EPERM,
         AEGIS_AUDIT (''ptrace TRACEME BLOCKED: '' @ task_tag (current env) @ '' from '' @
           task_tag parent)
           (AEGIS_STAT_INC total_events_update (AEGIS_STAT_INC ptrace_blocked_update s)))
      else (ret0, s))"


section \<open>File hooks\<close>

text \<open>What \<open>aegis_file_permission\<close> does for a path that \<open>d_path\<close> gave.\<close>

definition file_permission_path ::
    "'p kenv \<Rightarrow> string \<Rightarrow> 32 word \<Rightarrow> aegis_state \<Rightarrow> cret \<times> aegis_state" where
  "file_permission_path env path_str msk s =
     (if aegis_is_file_protected (Some path_str) s then
        let (rc, s1) =
              (if msk AND (MAY_WRITE OR MAY_APPEND) \<noteq> 0 \<and> file_integrity_enforce (aegis_cfg s)
               then (Inl EACCES,
                     AEGIS_AUDIT (''file WRITE BLOCKED: '' @ task_tag (current env) @ '' -> '' @
                       cstr path_str @ '' (protected)'')
                       (AEGIS_STAT_INC total_events_update
                         (AEGIS_STAT_INC file_violations_update s)))
               else (ret0, s));
            s2 = (if file_integrity_log (aegis_cfg s1) \<and> rc = ret0
                  then AEGIS_AUDIT (''file ACCESS: '' @ task_tag (current env) @ '' -> '' @
                         cstr path_str @ '' (mask=0x'' @ fmt_x (unat msk) @ '')'')
                         (AEGIS_STAT_INC total_events_update s1)
                  else s1)
        in (rc, s2)
      else (ret0, s))"

definition aegis_file_permission ::
    "'p kenv \<Rightarrow> 'p kfile \<Rightarrow> 32 word \<Rightarrow> aegis_state \<Rightarrow> cret \<times> aegis_state" where
  "aegis_file_permission env file msk s =
     (if \<not> AEGIS_FEATURE_CHECK AEGIS_FEATURE_FILE_INTEGRITY s then (ret0, s)
      else if aegis_protected_file_count s = 0 then (ret0, s)
      else if \<not> get_free_page env then (ret0, s)
      else
        (case d_path env (f_path file) of
           Inl _ \<Rightarrow> (ret0, s)
         | Inr path_str \<Rightarrow> file_permission_path env path_str msk s))"

definition aegis_file_open ::
    "'p kenv \<Rightarrow> 'p kfile \<Rightarrow> aegis_state \<Rightarrow> cret \<times> aegis_state" where
  "aegis_file_open env file s =
     (let msk = 0;
          msk = (if f_mode file AND FMODE_WRITE \<noteq> 0 then msk OR MAY_WRITE else msk);
          msk = (if f_mode file AND FMODE_READ \<noteq> 0 then msk OR MAY_READ else msk)
      in if msk = 0 then (ret0, s) else aegis_file_permission env file msk s)"


section \<open>Module and kexec loading hooks\<close>

fun aegis_read_id_to_syscall :: "kernel_read_file_id \<Rightarrow> int" where
  "aegis_read_id_to_syscall READING_MODULE = NR_finit_module"
| "aegis_read_id_to_syscall READING_KEXEC_IMAGE = NR_kexec_file_load"
| "aegis_read_id_to_syscall READING_KEXEC_INITRAMFS = NR_kexec_file_load"
| "aegis_read_id_to_syscall _ = -1"

definition aegis_kernel_read_file ::
    "'p kenv \<Rightarrow> 'p kfile option \<Rightarrow> kernel_read_file_id \<Rightarrow> bool \<Rightarrow> aegis_state \<Rightarrow>
     cret \<times> aegis_state" where
  "aegis_kernel_read_file env file rid contents_only s =
     (if \<not> enabled (aegis_cfg s) then (ret0, s)
      else
        let nr = aegis_read_id_to_syscall rid in
        if 0 \<le> nr \<and> aegis_is_syscall_blocked nr s then
          (Inl EPERM,
           AEGIS_AUDIT (''BLOCKED syscall '' @ fmt_d nr @ '' via kernel_read_file (id='' @
             fmt_d (read_id_nr env rid) @ '')'')
             (AEGIS_STAT_INC total_events_update (AEGIS_STAT_INC syscall_violations_update s)))
        else if \<not> AEGIS_FEATURE_CHECK AEGIS_FEATURE_MODULE_CONTROL s then (ret0, s)
        else if rid = READING_MODULE \<and> module_loading_denied (aegis_cfg s) then
          (case file of
             None \<Rightarrow> (Inl EPERM, s)
           | Some f \<Rightarrow>
               if \<not> get_free_page env then (Inl ENOMEM, s)
               else
                 (case d_path env (f_path f) of
                    Inl _ \<Rightarrow> (Inl EPERM, s)
                  | Inr path_str \<Rightarrow>
                      (Inl EPERM,
                       AEGIS_AUDIT (''module LOAD BLOCKED: '' @ task_tag (current env) @ '' -> '' @
                         cstr path_str)
                         (AEGIS_STAT_INC total_events_update
                           (AEGIS_STAT_INC module_violations_update s)))))
        else if rid = READING_FIRMWARE \<and> module_loading_denied (aegis_cfg s) then
          (Inl EPERM,
           AEGIS_AUDIT (''firmware LOAD BLOCKED: '' @ task_tag (current env))
             (AEGIS_STAT_INC total_events_update (AEGIS_STAT_INC module_violations_update s)))
        else (ret0, s))"

definition aegis_kernel_load_data ::
    "'p kenv \<Rightarrow> kernel_load_data_id \<Rightarrow> bool \<Rightarrow> aegis_state \<Rightarrow> cret \<times> aegis_state" where
  "aegis_kernel_load_data env lid contents s =
     (if \<not> enabled (aegis_cfg s) then (ret0, s)
      else if AEGIS_FEATURE_CHECK AEGIS_FEATURE_SYSCALL_AUDIT s \<and>
              (lid = LOADING_MODULE \<and> aegis_is_syscall_blocked NR_init_module s \<or>
               lid = LOADING_KEXEC_IMAGE \<and> aegis_is_syscall_blocked NR_kexec_load s) then
        (Inl EPERM,
         AEGIS_AUDIT (''BLOCKED syscall via kernel_load_data (id='' @
           fmt_d (load_id_nr env lid) @ '')'')
           (AEGIS_STAT_INC total_events_update (AEGIS_STAT_INC syscall_violations_update s)))
      else if \<not> AEGIS_FEATURE_CHECK AEGIS_FEATURE_MODULE_CONTROL s then (ret0, s)
      else if lid = LOADING_MODULE \<and> module_loading_denied (aegis_cfg s) then
        (Inl EPERM,
         AEGIS_AUDIT (''module LOAD DATA BLOCKED: '' @ task_tag (current env))
           (AEGIS_STAT_INC total_events_update (AEGIS_STAT_INC module_violations_update s)))
      else (ret0, s))"


section \<open>The remaining hooks and the hook table\<close>

definition aegis_bprm_check_security :: "aegis_state \<Rightarrow> cret \<times> aegis_state" where
  "aegis_bprm_check_security s =
     (if \<not> enabled (aegis_cfg s) then (ret0, s)
      else if AEGIS_FEATURE_CHECK AEGIS_FEATURE_SYSCALL_AUDIT s \<and> syscall_audit_enable (aegis_cfg s)
      then (ret0, AEGIS_STAT_INC total_events_update s)
      else (ret0, s))"

definition aegis_socket_create ::
    "int \<Rightarrow> int \<Rightarrow> int \<Rightarrow> int \<Rightarrow> aegis_state \<Rightarrow> cret \<times> aegis_state" where
  "aegis_socket_create family typ protocol kern s =
     (if \<not> enabled (aegis_cfg s) then (ret0, s) else (ret0, s))"

definition aegis_inode_permission :: "32 word \<Rightarrow> aegis_state \<Rightarrow> cret \<times> aegis_state" where
  "aegis_inode_permission msk s = (ret0, s)"

text \<open>The calls the framework can make, one constructor per entry of the table.\<close>

datatype 'p hook_call =
    Task_alloc task_struct "64 word"
  | Task_free task_struct
  | Ptrace_access_check task_struct "32 word"
  | Ptrace_traceme task_struct
  | File_permission "'p kfile" "32 word"
  | File_open "'p kfile"
  | Kernel_read_file "'p kfile option" kernel_read_file_id bool
  | Kernel_load_data kernel_load_data_id bool
  | Bprm_check_security
  | Socket_create int int int int
  | Inode_permission "32 word"

fun aegis_hooks :: "'p kenv \<Rightarrow> 'p hook_call \<Rightarrow> aegis_state \<Rightarrow> cret \<times> aegis_state" where
  "aegis_hooks env (Task_alloc t f) s = aegis_task_alloc t f s"
| "aegis_hooks env (Task_free t) s = (ret0, aegis_task_free t s)"
| "aegis_hooks env (Ptrace_access_check c m) s = aegis_ptrace_access_check env c m s"
| "aegis_hooks env (Ptrace_traceme p) s = aegis_ptrace_traceme env p s"
| "aegis_hooks env (File_permission f m) s = aegis_file_permission env f m s"
| "aegis_hooks env (File_open f) s = aegis_file_open env f s"
| "aegis_hooks env (Kernel_read_file f i c) s = aegis_kernel_read_file env f i c s"
| "aegis_hooks env (Kernel_load_data i c) s = aegis_kernel_load_data env i c s"
| "aegis_hooks env Bprm_check_security s = aegis_bprm_check_security s"
| "aegis_hooks env (Socket_create a b c d) s = aegis_socket_create a b c d s"
| "aegis_hooks env (Inode_permission m) s = aegis_inode_permission m s"

lemmas hook_defs [aegis_defs] =
  aegis_task_alloc_def aegis_task_free_def aegis_ptrace_access_check_def aegis_ptrace_traceme_def
  file_permission_path_def aegis_file_permission_def aegis_file_open_def
  aegis_kernel_read_file_def aegis_kernel_load_data_def aegis_bprm_check_security_def
  aegis_socket_create_def aegis_inode_permission_def

end
