(* ===== verification/Aegis_Verdicts.thy ===== *)
theory Aegis_Verdicts
  imports Aegis_Hooks
begin

unbundle bit_operations_syntax

text \<open>
  What the hooks decide. The locale \<open>decision_table\<close> states the contract of a table of
  decision hooks over a state with a policy part: a call leaves the policy alone, its verdict
  depends on the policy alone, a disarmed table allows everything and touches nothing, and
  the log only grows. Its consequences for sequences of calls hold for the AEGIS table by
  interpretation. Then, hook by hook, the exact condition under which access is denied, and
  how denials are counted and logged.
\<close>

section \<open>Sequences of hook calls\<close>

primrec run_calls :: "('env \<Rightarrow> 'call \<Rightarrow> 's \<Rightarrow> cret \<times> 's) \<Rightarrow> ('env \<times> 'call) list \<Rightarrow> 's \<Rightarrow> 's" where
  "run_calls call [] s = s"
| "run_calls call (x # xs) s = run_calls call xs (snd (call (fst x) (snd x) s))"

locale decision_table =
  fixes call :: "'env \<Rightarrow> 'call \<Rightarrow> 's \<Rightarrow> cret \<times> 's"
    and policy :: "'s \<Rightarrow> 'q"
    and armed :: "'s \<Rightarrow> bool"
    and log :: "'s \<Rightarrow> 'm list"
  assumes keeps_policy: "policy (snd (call e c s)) = policy s"
    and by_policy: "policy s = policy t \<Longrightarrow> fst (call e c s) = fst (call e c t)"
    and disarmed: "\<not> armed s \<Longrightarrow> call e c s = (ret0, s)"
    and log_grows: "\<exists>ms. log (snd (call e c s)) = log s @ ms"
begin

lemma run_policy: "policy (run_calls call cs s) = policy s"
  by (induction cs arbitrary: s) (simp_all add: keeps_policy)

lemma run_verdict: "fst (call e c (run_calls call cs s)) = fst (call e c s)"
  by (rule by_policy) (rule run_policy)

lemma run_disarmed: "\<not> armed s \<Longrightarrow> run_calls call cs s = s"
  by (induction cs) (simp_all add: disarmed)

lemma run_log: "\<exists>ms. log (run_calls call cs s) = log s @ ms"
proof (induction cs arbitrary: s)
  case Nil
  then show ?case by simp
next
  case (Cons x cs)
  obtain ms where "log (snd (call (fst x) (snd x) s)) = log s @ ms"
    using log_grows by blast
  moreover obtain ms' where
    "log (run_calls call cs (snd (call (fst x) (snd x) s))) = log (snd (call (fst x) (snd x) s)) @ ms'"
    using Cons.IH by blast
  ultimately show ?case by simp
qed

end


section \<open>The AEGIS table meets the contract\<close>

text \<open>The access mask \<open>aegis_file_open\<close> derives from the open mode.\<close>

definition open_mask :: "32 word \<Rightarrow> 32 word" where
  "open_mask m =
     (if m AND FMODE_WRITE \<noteq> 0 then MAY_WRITE else 0) OR (if m AND FMODE_READ \<noteq> 0 then MAY_READ else 0)"

lemma file_open_eq:
  "aegis_file_open env f s =
     (if open_mask (f_mode f) = 0 then (ret0, s)
      else aegis_file_permission env f (open_mask (f_mode f)) s)"
  by (simp add: aegis_file_open_def open_mask_def)

text \<open>The branches of the hooks, for proofs by cases on the call.\<close>

lemmas hook_branches =
  aegis_task_alloc_def aegis_task_free_def aegis_ptrace_access_check_def aegis_ptrace_traceme_def
  file_permission_path_def aegis_file_permission_def file_open_eq aegis_kernel_read_file_def
  aegis_kernel_load_data_def aegis_bprm_check_security_def aegis_socket_create_def
  aegis_inode_permission_def Let_def

lemma policy_protected:
  assumes "policy_of s = policy_of t"
  shows "aegis_is_process_protected task s = aegis_is_process_protected task t"
    and "aegis_is_file_protected path s = aegis_is_file_protected path t"
    and "aegis_is_syscall_blocked nr s = aegis_is_syscall_blocked nr t"
    and "aegis_protected_file_count s = aegis_protected_file_count t"
  using policy_of_eqD [OF assms] feature_check_policy [OF assms]
  by (auto simp: aegis_is_process_protected_def aegis_is_file_protected_def
      aegis_is_syscall_blocked_def aegis_protected_file_count_def lists_of_def split: option.split)

lemma hooks_keep_policy: "policy_of (snd (aegis_hooks env h s)) = policy_of s"
  by (cases h) (simp_all add: hook_branches split: option.split sum.split)

lemma file_permission_path_verdict:
  "fst (file_permission_path env path msk s) =
     (if aegis_is_file_protected (Some path) s \<and> msk AND (MAY_WRITE OR MAY_APPEND) \<noteq> 0 \<and>
         file_integrity_enforce (aegis_cfg s) then Inl EACCES else ret0)"
  by (simp add: file_permission_path_def Let_def)

lemma file_permission_verdict:
  "fst (aegis_file_permission env file msk s) =
     (if AEGIS_FEATURE_CHECK AEGIS_FEATURE_FILE_INTEGRITY s \<and> aegis_protected_file_count s \<noteq> 0 \<and>
         get_free_page env \<and> msk AND (MAY_WRITE OR MAY_APPEND) \<noteq> 0 \<and>
         file_integrity_enforce (aegis_cfg s) \<and>
         (\<exists>path. d_path env (f_path file) = Inr path \<and> aegis_is_file_protected (Some path) s)
      then Inl EACCES else ret0)"
  by (auto simp: aegis_file_permission_def file_permission_path_verdict split: sum.split)

lemma read_file_verdict:
  "fst (aegis_kernel_read_file env file rid c s) =
     (if enabled (aegis_cfg s) \<and> 0 \<le> aegis_read_id_to_syscall rid \<and>
         aegis_is_syscall_blocked (aegis_read_id_to_syscall rid) s then Inl EPERM
      else if AEGIS_FEATURE_CHECK AEGIS_FEATURE_MODULE_CONTROL s \<and>
         module_loading_denied (aegis_cfg s) \<and> rid \<in> {READING_MODULE, READING_FIRMWARE}
      then (if rid = READING_MODULE \<and> file \<noteq> None \<and> \<not> get_free_page env
            then Inl ENOMEM else Inl EPERM)
      else ret0)"
  by (auto simp: aegis_kernel_read_file_def Let_def AEGIS_FEATURE_CHECK_def
      split: option.split sum.split)

lemma load_data_verdict:
  "fst (aegis_kernel_load_data env lid c s) =
     (if (lid = LOADING_MODULE \<and> aegis_is_syscall_blocked NR_init_module s) \<or>
         (lid = LOADING_KEXEC_IMAGE \<and> aegis_is_syscall_blocked NR_kexec_load s) \<or>
         (lid = LOADING_MODULE \<and> AEGIS_FEATURE_CHECK AEGIS_FEATURE_MODULE_CONTROL s \<and>
          module_loading_denied (aegis_cfg s))
      then Inl EPERM else ret0)"
  by (auto simp: aegis_kernel_load_data_def AEGIS_FEATURE_CHECK_def aegis_is_syscall_blocked_def)

text \<open>Hook by hook, equal policies give equal verdicts.\<close>

lemma verdicts_by_policy:
  assumes "policy_of s = policy_of t"
  shows "fst (aegis_ptrace_access_check env c m s) = fst (aegis_ptrace_access_check env c m t)"
    and "fst (aegis_ptrace_traceme env c s) = fst (aegis_ptrace_traceme env c t)"
    and "fst (aegis_file_permission env f m s) = fst (aegis_file_permission env f m t)"
    and "fst (aegis_kernel_read_file env g rid b s) = fst (aegis_kernel_read_file env g rid b t)"
    and "fst (aegis_kernel_load_data env lid b s) = fst (aegis_kernel_load_data env lid b t)"
proof -
  note eqs = policy_of_eqD [OF assms] feature_check_policy [OF assms] policy_protected [OF assms]
  show "fst (aegis_ptrace_access_check env c m s) = fst (aegis_ptrace_access_check env c m t)"
    using eqs by (simp add: aegis_ptrace_access_check_def Let_def)
  show "fst (aegis_ptrace_traceme env c s) = fst (aegis_ptrace_traceme env c t)"
    using eqs by (simp add: aegis_ptrace_traceme_def)
  show "fst (aegis_file_permission env f m s) = fst (aegis_file_permission env f m t)"
    unfolding file_permission_verdict using eqs by simp
  show "fst (aegis_kernel_read_file env g rid b s) = fst (aegis_kernel_read_file env g rid b t)"
    unfolding read_file_verdict using eqs by simp
  show "fst (aegis_kernel_load_data env lid b s) = fst (aegis_kernel_load_data env lid b t)"
    unfolding load_data_verdict using eqs by simp
qed

lemma hooks_by_policy:
  assumes "policy_of s = policy_of t"
  shows "fst (aegis_hooks env h s) = fst (aegis_hooks env h t)"
  by (cases h) (simp_all add: verdicts_by_policy [OF assms] file_open_eq aegis_task_alloc_def
      aegis_bprm_check_security_def aegis_socket_create_def aegis_inode_permission_def)

lemma hooks_disarmed: "\<not> enabled (aegis_cfg s) \<Longrightarrow> aegis_hooks env h s = (ret0, s)"
  by (cases h) (simp_all add: hook_branches AEGIS_FEATURE_CHECK_def)

lemma hooks_log: "\<exists>ms. klog (snd (aegis_hooks env h s)) = klog s @ ms"
  by (cases h) (simp_all add: hook_branches split: option.split sum.split)

interpretation ht: decision_table aegis_hooks policy_of "\<lambda>s. enabled (aegis_cfg s)" klog
  by unfold_locales
    (rule hooks_keep_policy hooks_log | erule hooks_by_policy hooks_disarmed)+


section \<open>Verdicts\<close>

text \<open>The tasks a set of (name, pid) keys protects.\<close>

definition protects_task :: "(string \<times> int) set \<Rightarrow> task_struct \<Rightarrow> bool" where
  "protects_task ks t \<longleftrightarrow>
     (\<exists>(name, pid)\<in>ks. (pid \<noteq> 0 \<and> pid = task_pid t) \<or>
        (pid = 0 \<and> (name = cstr (task_comm t) \<or> name = cstr (task_leader_comm t))))"

lemma is_process_protected_iff:
  "procs_wf s \<Longrightarrow> aegis_is_process_protected (Some t) s \<longleftrightarrow>
     AEGIS_FEATURE_CHECK AEGIS_FEATURE_PROCESS_PROTECT s \<and> protects_task (proc_keys s) t"
  using list_ex_protects [of "protected_procs s" t]
  by (auto simp: aegis_is_process_protected_def procs_wf_def reg_wf_def proc_keys_def
      protects_task_def case_prod_beta)

lemma ptrace_verdict:
  "procs_wf s \<Longrightarrow> fst (aegis_ptrace_access_check env child mode s) =
     (if AEGIS_FEATURE_CHECK AEGIS_FEATURE_PTRACE_RESTRICT s \<and>
         (ptrace_restrict_all (aegis_cfg s) \<or>
          AEGIS_FEATURE_CHECK AEGIS_FEATURE_PROCESS_PROTECT s \<and> protects_task (proc_keys s) child)
      then Inl EPERM else ret0)"
  by (simp add: aegis_ptrace_access_check_def Let_def is_process_protected_iff)

lemma count_0_no_files: "files_wf s \<Longrightarrow> aegis_protected_file_count s = 0 \<longleftrightarrow> protected_files s = []"
  by (simp add: aegis_protected_file_count_def files_wf_def reg_wf_def)

lemma no_files_unprotected: "protected_files s = [] \<Longrightarrow> \<not> aegis_is_file_protected p s"
  by (simp add: aegis_is_file_protected_def split: option.split)

text \<open>The file hook without its fast path: the count is not looked at.\<close>

definition file_permission_slow ::
    "'p kenv \<Rightarrow> 'p kfile \<Rightarrow> 32 word \<Rightarrow> aegis_state \<Rightarrow> cret \<times> aegis_state" where
  "file_permission_slow env file msk s =
     (if \<not> AEGIS_FEATURE_CHECK AEGIS_FEATURE_FILE_INTEGRITY s then (ret0, s)
      else if \<not> get_free_page env then (ret0, s)
      else
        (case d_path env (f_path file) of
           Inl _ \<Rightarrow> (ret0, s)
         | Inr path_str \<Rightarrow> file_permission_path env path_str msk s))"

lemma fast_path_exact:
  "files_wf s \<Longrightarrow> aegis_file_permission env file msk s = file_permission_slow env file msk s"
  using count_0_no_files [of s] no_files_unprotected [of s]
  by (auto simp: aegis_file_permission_def file_permission_slow_def file_permission_path_def
      split: sum.split)

lemma open_mask_write:
  "f_mode f AND FMODE_WRITE \<noteq> 0 \<Longrightarrow>
   fst (aegis_file_open env f s) = fst (aegis_file_permission env f MAY_WRITE s)"
  by (simp add: aegis_file_open_def file_permission_verdict mode_bits)

lemma open_read_only:
  "f_mode f AND FMODE_WRITE = 0 \<Longrightarrow> fst (aegis_file_open env f s) = ret0"
  by (simp add: aegis_file_open_def file_permission_verdict mode_bits)

section \<open>Accounting\<close>

text \<open>All denials counted, in the 64-bit arithmetic of the counters.\<close>

definition violations :: "aegis_state \<Rightarrow> 64 word" where
  "violations s =
     ptrace_blocked (aegis_cfg s) + file_violations (aegis_cfg s) +
     syscall_violations (aegis_cfg s) + module_violations (aegis_cfg s)"

text \<open>
  The denials that leave no trace: a refused module read whose file is missing, or whose path
  could not be rendered.
\<close>

fun silent_denial :: "'p kenv \<Rightarrow> 'p hook_call \<Rightarrow> bool" where
  "silent_denial env (Kernel_read_file file rid c) \<longleftrightarrow>
     rid = READING_MODULE \<and>
     (case file of None \<Rightarrow> True
      | Some f \<Rightarrow> \<not> get_free_page env \<or> (\<exists>e. d_path env (f_path f) = Inl e))"
| "silent_denial env _ \<longleftrightarrow> False"

lemma violations_log [simp]:
  "violations (AEGIS_AUDIT m s) = violations s"
  by (simp add: violations_def)

lemma violations_stat [simp]:
  "violations (AEGIS_STAT_INC ptrace_blocked_update s) = violations s + 1"
  "violations (AEGIS_STAT_INC file_violations_update s) = violations s + 1"
  "violations (AEGIS_STAT_INC syscall_violations_update s) = violations s + 1"
  "violations (AEGIS_STAT_INC module_violations_update s) = violations s + 1"
  "violations (AEGIS_STAT_INC total_events_update s) = violations s"
  by (simp_all add: violations_def algebra_simps)

text \<open>
  The four violation counters, and the one a denied call is charged to: the ptrace hooks and the
  file hooks have one each; a denied load counts as a system call violation when the call behind
  it is on the blocked list (\<open>finit_module\<close> 313, \<open>kexec_file_load\<close> 320, \<open>init_module\<close> 175,
  \<open>kexec_load\<close> 246) and as a module violation otherwise. The other hooks deny nothing.
\<close>

datatype charge = Ptrace_charge | File_charge | Syscall_charge | Module_charge

definition counter :: "charge \<Rightarrow> aegis_state \<Rightarrow> 64 word" where
  "counter c s =
     (case c of
        Ptrace_charge \<Rightarrow> ptrace_blocked (aegis_cfg s)
      | File_charge \<Rightarrow> file_violations (aegis_cfg s)
      | Syscall_charge \<Rightarrow> syscall_violations (aegis_cfg s)
      | Module_charge \<Rightarrow> module_violations (aegis_cfg s))"

fun charge_of :: "'p hook_call \<Rightarrow> aegis_state \<Rightarrow> charge option" where
  "charge_of (Ptrace_access_check c m) s = Some Ptrace_charge"
| "charge_of (Ptrace_traceme p) s = Some Ptrace_charge"
| "charge_of (File_permission f m) s = Some File_charge"
| "charge_of (File_open f) s = Some File_charge"
| "charge_of (Kernel_read_file f rid c) s =
     Some (if rid = READING_MODULE \<and> aegis_is_syscall_blocked 313 s \<or>
              rid \<in> {READING_KEXEC_IMAGE, READING_KEXEC_INITRAMFS} \<and> aegis_is_syscall_blocked 320 s
           then Syscall_charge else Module_charge)"
| "charge_of (Kernel_load_data lid b) s =
     Some (if lid = LOADING_MODULE \<and> aegis_is_syscall_blocked 175 s \<or>
              lid = LOADING_KEXEC_IMAGE \<and> aegis_is_syscall_blocked 246 s
           then Syscall_charge else Module_charge)"
| "charge_of _ s = None"

text \<open>
  The books of one call: a denial adds one to the counter it is charged to, none to the other
  three, and one to the event counter, and appends one warning line, or none for a ptrace probe
  marked as not audited while all ptrace is restricted; a denial without a trace leaves the state
  as it was; an allowed call counts at most one event and no violation.
\<close>

definition accounted ::
    "charge option \<Rightarrow> bool \<Rightarrow> bool \<Rightarrow> aegis_state \<Rightarrow> cret \<times> aegis_state \<Rightarrow> bool" where
  "accounted k silent unaudited s x \<longleftrightarrow>
     (case fst x of
        Inl e \<Rightarrow>
          (if silent \<and> k = Some Module_charge then snd x = s
           else
             (\<exists>c. k = Some c \<and> (\<forall>d. counter d (snd x) = counter d s + (if d = c then 1 else 0))) \<and>
             total_events (aegis_cfg (snd x)) = total_events (aegis_cfg s) + 1 \<and>
             (if unaudited \<and> ptrace_restrict_all (aegis_cfg s) then klog (snd x) = klog s
              else \<exists>m. klog (snd x) = klog s @ [(KERN_WARNING, ''aegis: '' @ m @ [LF])]))
      | Inr n \<Rightarrow>
          n = 0 \<and> (\<forall>d. counter d (snd x) = counter d s) \<and>
          total_events (aegis_cfg (snd x)) - total_events (aegis_cfg s) \<in> {0, 1})"

fun unaudited_call :: "'p hook_call \<Rightarrow> bool" where
  "unaudited_call (Ptrace_access_check c mode) \<longleftrightarrow> mode AND PTRACE_MODE_NOAUDIT \<noteq> 0"
| "unaudited_call _ \<longleftrightarrow> False"

lemma counter_log [simp]: "counter d (AEGIS_AUDIT m s) = counter d s"
  by (cases d) (simp_all add: counter_def)

lemma counter_stat [simp]:
  "counter d (AEGIS_STAT_INC ptrace_blocked_update s) = counter d s + (if d = Ptrace_charge then 1 else 0)"
  "counter d (AEGIS_STAT_INC file_violations_update s) = counter d s + (if d = File_charge then 1 else 0)"
  "counter d (AEGIS_STAT_INC syscall_violations_update s) = counter d s + (if d = Syscall_charge then 1 else 0)"
  "counter d (AEGIS_STAT_INC module_violations_update s) = counter d s + (if d = Module_charge then 1 else 0)"
  "counter d (AEGIS_STAT_INC total_events_update s) = counter d s"
  by (cases d; simp add: counter_def)+

lemma counter_sum:
  "violations s = counter Ptrace_charge s + counter File_charge s + counter Syscall_charge s +
     counter Module_charge s"
  by (simp add: violations_def counter_def)

lemma accounted_allowed:
  "accounted k a b s (ret0, s)"
  "accounted k a b s (ret0, AEGIS_STAT_INC total_events_update s)"
  "accounted k a b s (ret0, AEGIS_AUDIT m (AEGIS_STAT_INC total_events_update s))"
  by (auto simp: accounted_def)

lemma accounted_silent:
  "a \<Longrightarrow> accounted (Some Module_charge) a b s (Inl e, s)"
  by (simp add: accounted_def)

lemma accounted_denied:
  assumes "\<not> (b \<and> ptrace_restrict_all (aegis_cfg s))"
  shows "accounted (Some Ptrace_charge) a b s (Inl e, AEGIS_AUDIT m
      (AEGIS_STAT_INC total_events_update (AEGIS_STAT_INC ptrace_blocked_update s)))"
    "accounted (Some File_charge) a b s (Inl e, AEGIS_AUDIT m
      (AEGIS_STAT_INC total_events_update (AEGIS_STAT_INC file_violations_update s)))"
    "accounted (Some Syscall_charge) a b s (Inl e, AEGIS_AUDIT m
      (AEGIS_STAT_INC total_events_update (AEGIS_STAT_INC syscall_violations_update s)))"
    "\<not> a \<Longrightarrow> accounted (Some Module_charge) a b s (Inl e, AEGIS_AUDIT m
      (AEGIS_STAT_INC total_events_update (AEGIS_STAT_INC module_violations_update s)))"
  using assms by (auto simp: accounted_def)

lemma accounted_unaudited:
  "b \<Longrightarrow> ptrace_restrict_all (aegis_cfg s) \<Longrightarrow> accounted (Some Ptrace_charge) a b s
     (Inl e, AEGIS_STAT_INC total_events_update (AEGIS_STAT_INC ptrace_blocked_update s))"
  by (auto simp: accounted_def)

lemmas accounted_rules =
  accounted_allowed accounted_silent accounted_denied accounted_unaudited

lemma file_permission_accounted:
  "accounted (Some File_charge) a False s (aegis_file_permission env f m s)"
  by (simp add: aegis_file_permission_def file_permission_path_def Let_def accounted_rules
      split: sum.split)

lemma file_open_accounted: "accounted (Some File_charge) a False s (aegis_file_open env f s)"
  by (simp add: file_open_eq file_permission_accounted accounted_rules)

lemma ptrace_accounted:
  "accounted (Some Ptrace_charge) a (mode AND PTRACE_MODE_NOAUDIT \<noteq> 0) s
     (aegis_ptrace_access_check env c mode s)"
  by (simp add: aegis_ptrace_access_check_def Let_def accounted_rules)

lemma read_file_accounted:
  "accounted (charge_of (Kernel_read_file f rid c) s)
     (silent_denial env (Kernel_read_file f rid c)) False s (aegis_kernel_read_file env f rid c s)"
  by (cases rid)
    (simp_all add: aegis_kernel_read_file_def Let_def accounted_rules syscall_nrs
      split: option.split sum.split)

lemma load_data_accounted:
  "accounted (charge_of (Kernel_load_data lid b) s) False False s
     (aegis_kernel_load_data env lid b s)"
proof -
  have "aegis_is_syscall_blocked nr s \<Longrightarrow> AEGIS_FEATURE_CHECK AEGIS_FEATURE_SYSCALL_AUDIT s" for nr
    by (auto simp: aegis_is_syscall_blocked_def split: if_splits)
  then show ?thesis
    by (auto simp: aegis_kernel_load_data_def accounted_rules syscall_nrs)
qed

lemma hooks_accounted:
  "accounted (charge_of h s) (silent_denial env h) (unaudited_call h) s (aegis_hooks env h s)"
proof (cases h)
  case (Kernel_read_file f rid c)
  then show ?thesis using read_file_accounted [of f rid c s env] by simp
next
  case (Kernel_load_data lid b)
  then show ?thesis using load_data_accounted [of lid b s env] by simp
qed (simp_all add: file_permission_accounted file_open_accounted ptrace_accounted accounted_rules
      aegis_task_alloc_def aegis_task_free_def aegis_ptrace_traceme_def
      aegis_bprm_check_security_def aegis_socket_create_def aegis_inode_permission_def)

text \<open>The calls of a sequence that are denied, judged by the policy at its start.\<close>

definition denials :: "('p kenv \<times> 'p hook_call) list \<Rightarrow> aegis_state \<Rightarrow> nat" where
  "denials cs s = length (filter (\<lambda>x. fst (aegis_hooks (fst x) (snd x) s) \<noteq> ret0) cs)"

lemma denials_policy: "policy_of s = policy_of t \<Longrightarrow> denials cs s = denials cs t"
  by (simp add: denials_def hooks_by_policy [of s t])

lemma call_violations:
  assumes "\<not> silent_denial env h"
  shows "violations (snd (aegis_hooks env h s)) =
    violations s + (if fst (aegis_hooks env h s) \<noteq> ret0 then 1 else 0)"
proof (cases "fst (aegis_hooks env h s)")
  case (Inl e)
  then obtain c where "\<forall>d. counter d (snd (aegis_hooks env h s)) = counter d s + (if d = c then 1 else 0)"
    using hooks_accounted [of h s env] assms by (auto simp: accounted_def)
  with Inl show ?thesis by (cases c) (simp_all add: counter_sum)
next
  case (Inr n)
  then show ?thesis using hooks_accounted [of h s env] by (simp add: accounted_def counter_sum)
qed

lemma run_violations:
  assumes "\<forall>x\<in>set cs. \<not> silent_denial (fst x) (snd x)"
  shows "violations (run_calls aegis_hooks cs s) = violations s + word_of_nat (denials cs s)"
  using assms
proof (induction cs arbitrary: s)
  case Nil
  then show ?case by (simp add: denials_def)
next
  case (Cons x cs)
  let ?t = "snd (aegis_hooks (fst x) (snd x) s)"
  have "denials cs ?t = denials cs s"
    by (rule denials_policy) (rule hooks_keep_policy)
  then have "violations (run_calls aegis_hooks cs ?t) = violations ?t + word_of_nat (denials cs s)"
    using Cons by simp
  moreover have "denials (x # cs) s =
      (if fst (aegis_hooks (fst x) (snd x) s) \<noteq> ret0 then 1 else 0) + denials cs s"
    by (simp add: denials_def)
  ultimately show ?case
    using call_violations [of "fst x" "snd x" s] Cons.prems by simp
qed


text \<open>
  A verdict depends on the configuration, the process and file lists and four of the blocked
  numbers.
\<close>

lemma verdict_by_cfg_lists:
  assumes "aegis_cfg s = aegis_cfg t"
    and "protected_procs s = protected_procs t" and "protected_files s = protected_files t"
    and "protected_file_count s = protected_file_count t"
    and "blocked_set s \<inter> {175, 246, 313, 320} = blocked_set t \<inter> {175, 246, 313, 320}"
  shows "fst (aegis_hooks env h s) = fst (aegis_hooks env h t)"
proof -
  have feat: "AEGIS_FEATURE_CHECK f s = AEGIS_FEATURE_CHECK f t" for f
    by (simp add: AEGIS_FEATURE_CHECK_def assms(1))
  have "nr \<in> {175, 246, 313, 320} \<Longrightarrow>
      aegis_is_syscall_blocked nr s = aegis_is_syscall_blocked nr t" for nr
    using assms(5) unfolding is_syscall_blocked_iff assms(1) feat by blast
  then have nrs: "aegis_is_syscall_blocked NR_init_module s = aegis_is_syscall_blocked NR_init_module t"
    "aegis_is_syscall_blocked NR_kexec_load s = aegis_is_syscall_blocked NR_kexec_load t"
    "aegis_is_syscall_blocked NR_finit_module s = aegis_is_syscall_blocked NR_finit_module t"
    "aegis_is_syscall_blocked NR_kexec_file_load s = aegis_is_syscall_blocked NR_kexec_file_load t"
    by (simp_all add: syscall_nrs)
  have procs: "aegis_is_process_protected c s = aegis_is_process_protected c t" for c
    by (simp add: aegis_is_process_protected_def feat assms(2) split: option.split)
  have fil: "aegis_is_file_protected p s = aegis_is_file_protected p t" for p
    by (simp add: aegis_is_file_protected_def feat assms(3) split: option.split)
  have perm: "fst (aegis_file_permission env f m s) = fst (aegis_file_permission env f m t)" for f m
    unfolding file_permission_verdict
    by (simp add: feat fil assms(1,4) aegis_protected_file_count_def)
  have rd: "fst (aegis_kernel_read_file env f rid c s) = fst (aegis_kernel_read_file env f rid c t)"
    for f rid c
    unfolding read_file_verdict by (cases rid) (simp_all add: feat nrs assms(1) syscall_nrs [symmetric])
  show ?thesis
    by (cases h) (simp_all add: perm rd load_data_verdict nrs feat procs assms(1) file_open_eq
        aegis_ptrace_access_check_def aegis_ptrace_traceme_def aegis_task_alloc_def
        aegis_bprm_check_security_def aegis_socket_create_def aegis_inode_permission_def Let_def)
qed


section \<open>A concrete kernel\<close>

text \<open>
  Instances for evaluation: a kernel whose paths are their own text, and a state that protects
  \<open>sshd\<close> by name and \<open>/etc/shadow\<close> by path and blocks one system call.
\<close>

definition demo_task :: task_struct where
  "demo_task = \<lparr>task_comm = ''bash'', task_pid = 100, task_leader_comm = ''bash''\<rparr>"

definition demo_sshd :: task_struct where
  "demo_sshd = \<lparr>task_comm = ''sshd'', task_pid = 7, task_leader_comm = ''sshd''\<rparr>"

definition demo_kenv :: "string kenv" where
  "demo_kenv =
     \<lparr>current = demo_task, get_free_page = True, d_path = Inr,
      read_id_nr = (\<lambda>_. 0), load_id_nr = (\<lambda>_. 0)\<rparr>"

definition demo_state :: aegis_state where
  "demo_state = aegis_statics
     \<lparr>protected_procs := [proc_new ''sshd'' 0], protected_proc_count := 1,
      protected_files := [\<lparr>pf_path = strscpy (memset0 AEGIS_PATH_LEN) ''/etc/shadow'' AEGIS_PATH_LEN,
        pf_hash = [], pf_hash_valid = False\<rparr>], protected_file_count := 1,
      blocked_syscalls := [\<lparr>bs_syscall_nr = 313\<rparr>], blocked_syscall_count := 1\<rparr>"

lemma demo_wf: "procs_wf demo_state" "files_wf demo_state" "syscalls_wf demo_state"
  by (simp_all add: demo_state_def procs_wf_def files_wf_def syscalls_wf_def reg_wf_def
      proc_new_wfe file_wfe_def syscall_wfe_def length_strscpy cstr_strscpy aegis_consts)

lemma demo_keys:
  "proc_keys demo_state = {(''sshd'', 0)}" "file_keys demo_state = {''/etc/shadow''}"
  "blocked_set demo_state = {313}"
  by (simp_all add: demo_state_def proc_keys_def file_keys_def blocked_set_def proc_new_key
      file_key_def cstr_strscpy cstr_Cons aegis_consts)

lemma demo_cfg: "aegis_cfg demo_state = aegis_cfg_init"
  by (simp add: demo_state_def)

lemma demo_features [simp]:
  "AEGIS_FEATURE_CHECK AEGIS_FEATURE_PROCESS_PROTECT demo_state"
  "AEGIS_FEATURE_CHECK AEGIS_FEATURE_FILE_INTEGRITY demo_state"
  "AEGIS_FEATURE_CHECK AEGIS_FEATURE_SYSCALL_AUDIT demo_state"
  "AEGIS_FEATURE_CHECK AEGIS_FEATURE_MODULE_CONTROL demo_state"
  "AEGIS_FEATURE_CHECK AEGIS_FEATURE_PTRACE_RESTRICT demo_state"
  by (simp_all add: AEGIS_FEATURE_CHECK_def demo_cfg aegis_cfg_init_def feature_all_bits)

lemmas demo = demo_keys demo_cfg demo_kenv_def demo_task_def demo_sshd_def aegis_cfg_init_def


section \<open>Properties\<close>

text \<open>
  C12: A ptrace attachment is denied exactly when ptrace restriction is on and either all
  ptrace is restricted or process protection is on and the list protects the target: by its
  pid, by its name, or by the name of its thread group leader; a traceme request is denied
  exactly when all ptrace is restricted.
\<close>

theorem ptrace_denied_iff:
  assumes "procs_wf s"
  shows "fst (aegis_ptrace_access_check env child mode s) =
     (if AEGIS_FEATURE_CHECK AEGIS_FEATURE_PTRACE_RESTRICT s \<and>
         (ptrace_restrict_all (aegis_cfg s) \<or>
          AEGIS_FEATURE_CHECK AEGIS_FEATURE_PROCESS_PROTECT s \<and> protects_task (proc_keys s) child)
      then Inl EPERM else ret0) \<and>
   fst (aegis_ptrace_traceme env parent s) =
     (if AEGIS_FEATURE_CHECK AEGIS_FEATURE_PTRACE_RESTRICT s \<and> ptrace_restrict_all (aegis_cfg s)
      then Inl EPERM else ret0)"
  by (simp add: ptrace_verdict [OF assms] aegis_ptrace_traceme_def)

theorem ptrace_denied_iff_witness:
  "procs_wf demo_state \<and>
   fst (aegis_ptrace_access_check demo_kenv demo_sshd 0 demo_state) = Inl EPERM \<and>
   fst (aegis_ptrace_access_check demo_kenv demo_task 0 demo_state) = ret0"
  using ptrace_denied_iff [OF demo_wf(1), of demo_kenv demo_sshd 0]
    ptrace_denied_iff [OF demo_wf(1), of demo_kenv demo_task 0] demo_wf(1)
  by (simp add: protects_task_def demo cstr_Cons)

text \<open>
  C11: File access is denied exactly when file integrity is on and enforced, the access writes
  or appends, and the path text of the file is one of the protected paths. Reads are never
  denied; and where no page can be allocated or the path has no text, nothing is.
\<close>

theorem file_write_denied_iff:
  assumes "files_wf s"
  shows "fst (aegis_file_permission env f msk s) =
     (if AEGIS_FEATURE_CHECK AEGIS_FEATURE_FILE_INTEGRITY s \<and> file_integrity_enforce (aegis_cfg s) \<and>
         msk AND (MAY_WRITE OR MAY_APPEND) \<noteq> 0 \<and> get_free_page env \<and>
         (\<exists>path. d_path env (f_path f) = Inr path \<and> cstr path \<in> file_keys s)
      then Inl EACCES else ret0)"
proof -
  have "aegis_protected_file_count s = 0 \<Longrightarrow> file_keys s = {}"
    using count_0_no_files [OF assms] by (simp add: file_keys_def)
  then show ?thesis
    unfolding file_permission_verdict using is_file_protected_iff [OF assms] by auto
qed

theorem file_write_denied_iff_witness:
  "files_wf demo_state \<and>
   fst (aegis_file_permission demo_kenv \<lparr>f_path = ''/etc/shadow'', f_mode = 2\<rparr> MAY_WRITE demo_state)
     = Inl EACCES \<and>
   fst (aegis_file_permission demo_kenv \<lparr>f_path = ''/etc/shadow'', f_mode = 1\<rparr> MAY_READ demo_state)
     = ret0"
  using file_write_denied_iff [OF demo_wf(2), of demo_kenv "\<lparr>f_path = ''/etc/shadow'', f_mode = 2\<rparr>" MAY_WRITE]
    file_write_denied_iff [OF demo_wf(2), of demo_kenv "\<lparr>f_path = ''/etc/shadow'', f_mode = 1\<rparr>" MAY_READ]
    demo_wf(2)
  by (simp add: demo mode_bits cstr_Cons)

text \<open>
  The fast path of the file hook is exact. On a well-formed list, skipping the path lookup
  when the counter reads zero gives the same verdict and the same state as the hook without it.
\<close>

lemma file_fast_path_equivalent:
  assumes "files_wf s"
  shows "aegis_file_permission env f msk s = file_permission_slow env f msk s"
  by (rule fast_path_exact [OF assms])

text \<open>
  Opening a file is judged by the real open mode: an open for writing gets the verdict of
  a write, an open without write mode is never denied, and an open with neither mode leaves the
  state alone.
\<close>

lemma file_open_by_mode:
  "fst (aegis_file_open env f s) =
     (if f_mode f AND FMODE_WRITE \<noteq> 0 then fst (aegis_file_permission env f MAY_WRITE s) else ret0) \<and>
   (f_mode f AND (FMODE_READ OR FMODE_WRITE) = 0 \<longrightarrow> aegis_file_open env f s = (ret0, s))"
proof -
  have "f_mode f AND (FMODE_READ OR FMODE_WRITE) = 0 \<Longrightarrow>
      f_mode f AND FMODE_READ = 0 \<and> f_mode f AND FMODE_WRITE = 0"
    by (metis and_zero_eq bit.conj_disj_distrib or_eq_0_iff)
  then show ?thesis
    using open_mask_write [of f env s] open_read_only [of f env s]
    by (auto simp: aegis_file_open_def)
qed

text \<open>
  C13: Module, firmware and kexec loading. A read by the kernel is denied exactly when the
  system call behind it (\<open>finit_module\<close>, \<open>kexec_file_load\<close>) is blocked, or module
  loading is denied and it is a module or firmware (with \<open>-ENOMEM\<close> instead of
  \<open>-EPERM\<close> where the page for the log line is missing); loading from memory is denied
  exactly when \<open>init_module\<close> or \<open>kexec_load\<close> is blocked, or module loading is denied
  and it is a module.
\<close>

theorem loading_denied_iff:
  "fst (aegis_kernel_read_file env f rid c s) =
     (if aegis_is_syscall_blocked
           (case rid of READING_MODULE \<Rightarrow> NR_finit_module | READING_KEXEC_IMAGE \<Rightarrow> NR_kexec_file_load
            | READING_KEXEC_INITRAMFS \<Rightarrow> NR_kexec_file_load | _ \<Rightarrow> -1) s \<and>
         rid \<in> {READING_MODULE, READING_KEXEC_IMAGE, READING_KEXEC_INITRAMFS} then Inl EPERM
      else if AEGIS_FEATURE_CHECK AEGIS_FEATURE_MODULE_CONTROL s \<and>
         module_loading_denied (aegis_cfg s) \<and> rid \<in> {READING_MODULE, READING_FIRMWARE}
      then (if rid = READING_MODULE \<and> f \<noteq> None \<and> \<not> get_free_page env
            then Inl ENOMEM else Inl EPERM)
      else ret0) \<and>
   fst (aegis_kernel_load_data env lid b s) =
     (if (lid = LOADING_MODULE \<and> aegis_is_syscall_blocked NR_init_module s) \<or>
         (lid = LOADING_KEXEC_IMAGE \<and> aegis_is_syscall_blocked NR_kexec_load s) \<or>
         (lid = LOADING_MODULE \<and> AEGIS_FEATURE_CHECK AEGIS_FEATURE_MODULE_CONTROL s \<and>
          module_loading_denied (aegis_cfg s))
      then Inl EPERM else ret0)"
proof
  have "aegis_is_syscall_blocked nr s \<Longrightarrow> enabled (aegis_cfg s)" for nr
    by (auto simp: aegis_is_syscall_blocked_def AEGIS_FEATURE_CHECK_def split: if_splits)
  then show "fst (aegis_kernel_read_file env f rid c s) =
     (if aegis_is_syscall_blocked
           (case rid of READING_MODULE \<Rightarrow> NR_finit_module | READING_KEXEC_IMAGE \<Rightarrow> NR_kexec_file_load
            | READING_KEXEC_INITRAMFS \<Rightarrow> NR_kexec_file_load | _ \<Rightarrow> -1) s \<and>
         rid \<in> {READING_MODULE, READING_KEXEC_IMAGE, READING_KEXEC_INITRAMFS} then Inl EPERM
      else if AEGIS_FEATURE_CHECK AEGIS_FEATURE_MODULE_CONTROL s \<and>
         module_loading_denied (aegis_cfg s) \<and> rid \<in> {READING_MODULE, READING_FIRMWARE}
      then (if rid = READING_MODULE \<and> f \<noteq> None \<and> \<not> get_free_page env
            then Inl ENOMEM else Inl EPERM)
      else ret0)"
    unfolding read_file_verdict by (cases rid) (auto simp: syscall_nrs)
qed (rule load_data_verdict)

text \<open>
  The master switch. With AEGIS disabled no sequence of hook calls changes anything, not
  even a counter or the log, and every further call is allowed.
\<close>

lemma disabled_is_transparent:
  assumes "\<not> enabled (aegis_cfg s)"
  shows "run_calls aegis_hooks cs s = s \<and> aegis_hooks env h s = (ret0, s)"
  by (intro conjI ht.run_disarmed ht.disarmed assms)

text \<open>
  Enforcement cannot be worn down. No sequence of hook calls, denied or allowed, changes
  the policy (lists, switches, mirrors) or the verdict of any later call, and the log only grows.
\<close>

lemma hooks_cannot_change_policy:
  "policy_of (run_calls aegis_hooks cs s) = policy_of s \<and>
   fst (aegis_hooks env h (run_calls aegis_hooks cs s)) = fst (aegis_hooks env h s) \<and>
   (\<exists>ms. klog (run_calls aegis_hooks cs s) = klog s @ ms)"
  by (intro conjI ht.run_policy ht.by_policy ht.run_log)

text \<open>
  C17: The books of one call, for every hook. A denial adds one to the violation counter of its
  kind (ptrace hooks: \<open>ptrace_blocked\<close>; file hooks: \<open>file_violations\<close>; loads whose system call
  is blocked: \<open>syscall_violations\<close>; other loads: \<open>module_violations\<close>), nothing to the other
  three, and one to the event counter, and logs one warning line (none for a ptrace probe marked
  as not audited under full restriction); only a module read refused by module control without a
  readable path leaves no trace. An allowed call changes no violation counter and counts at most
  one event. The hooks for tasks, programs, sockets and inodes deny nothing.
\<close>

theorem every_denial_accounted:
  "accounted (charge_of h s) (silent_denial env h) (unaudited_call h) s (aegis_hooks env h s)"
  by (rule hooks_accounted)

text \<open>
  The counters tell how many attacks were stopped. Over a sequence of calls none of which
  is a module read without a readable path, the sum of the violation counters grows, in 64-bit
  arithmetic, by the number of calls the policy denies.
\<close>

lemma violations_count_denials:
  assumes "\<forall>x\<in>set cs. \<not> silent_denial (fst x) (snd x)"
  shows "violations (run_calls aegis_hooks cs s) = violations s + word_of_nat (denials cs s)"
  by (rule run_violations [OF assms])

text \<open>
  Of the blocked system call list only four numbers are ever enforced: \<open>init_module\<close>,
  \<open>kexec_load\<close>, \<open>finit_module\<close> and \<open>kexec_file_load\<close>. States that differ only in other
  numbers give the same verdict to every call.
\<close>

lemma only_four_syscalls_enforced:
  assumes "aegis_cfg s = aegis_cfg t"
    and "protected_procs s = protected_procs t" and "protected_files s = protected_files t"
    and "protected_file_count s = protected_file_count t"
    and "blocked_set s \<inter> {175, 246, 313, 320} = blocked_set t \<inter> {175, 246, 313, 320}"
  shows "fst (aegis_hooks env h s) = fst (aegis_hooks env h t)"
  by (rule verdict_by_cfg_lists [OF assms])

end
