(* ===== verification/Aegis_Control.thy ===== *)
theory Aegis_Control
  imports Aegis_Process Aegis_File Aegis_Audit
begin

text \<open>
  The write side of the control interface, \<^verbatim>\<open>aegis/aegis_control.c\<close>: the shared
  helpers, the six write handlers and their endpoint table. A user buffer is the list of
  bytes that can be read from the user's pointer on; \<open>copy_from_user\<close> of more than that
  faults. A write that adds a file may never return (its digest loop), so handlers return an
  option.
\<close>

section \<open>Shared helpers\<close>

record ('d, 'p) ctl_env =
  capable_mac_admin :: bool
  ctl_kmalloc :: bool
  ctl_junk :: string
  ctl_entry_kmalloc :: bool
  ctl_file :: "('d, 'p) file_env"

definition aectl_authorized :: "('d, 'p) ctl_env \<Rightarrow> bool" where
  "aectl_authorized env = capable_mac_admin env"

definition copy_from_user :: "string \<Rightarrow> nat \<Rightarrow> string option" where
  "copy_from_user ubuf n = (if n \<le> length ubuf then Some (take n ubuf) else None)"

text \<open>The loop that strips trailing line ends, shortening the string in place.\<close>

fun aectl_strip :: "nat \<Rightarrow> string \<Rightarrow> nat \<times> string" where
  "aectl_strip 0 out = (0, out)"
| "aectl_strip (Suc n) out =
     (if out ! n = LF \<or> out ! n = CR then aectl_strip n (out[n := NUL]) else (Suc n, out))"

definition aectl_get_string :: "string \<Rightarrow> nat \<Rightarrow> string \<Rightarrow> nat \<Rightarrow> cret \<times> string" where
  "aectl_get_string ubuf len out maxlen =
     (let n = min len (maxlen - 1) in
      case copy_from_user ubuf n of
        None \<Rightarrow> (Inl EFAULT, out)
      | Some bytes \<Rightarrow>
          let out1 = bytes @ [NUL] @ drop (Suc n) out in
          if strnlen out1 n \<noteq> n then (Inl EINVAL, out1)
          else let (m, out2) = aectl_strip n out1 in (Inr m, out2))"

definition aectl_write_op ::
    "('d, 'p) ctl_env \<Rightarrow> string \<Rightarrow> nat \<Rightarrow> (string \<Rightarrow> aegis_state \<Rightarrow> (cret \<times> aegis_state) option) \<Rightarrow>
     aegis_state \<Rightarrow> (cret \<times> aegis_state) option" where
  "aectl_write_op env ubuf len oper s =
     (if \<not> aectl_authorized env then Some (Inl EPERM, s)
      else if len = 0 \<or> AEGIS_PATH_LEN < len then Some (Inl EINVAL, s)
      else if \<not> ctl_kmalloc env then Some (Inl ENOMEM, s)
      else
        (case aectl_get_string ubuf len (ctl_junk env) AEGIS_PATH_LEN of
           (Inl e, _) \<Rightarrow> Some (Inl e, s)
         | (Inr n, buf) \<Rightarrow>
             if n = 0 then Some (Inr 0, s)
             else
               (case oper buf s of
                  None \<Rightarrow> None
                | Some (ret, s1) \<Rightarrow> Some (if ret = ret0 then Inr len else ret, s1))))"


section \<open>The write handlers\<close>

definition aectl_files_add_write ::
    "('d, 'p) ctl_env \<Rightarrow> string \<Rightarrow> nat \<Rightarrow> aegis_state \<Rightarrow> (cret \<times> aegis_state) option" where
  "aectl_files_add_write env ubuf len s =
     aectl_write_op env ubuf len (\<lambda>buf. aegis_protected_file_add (ctl_file env) (Some buf)) s"

definition aectl_files_del_write ::
    "('d, 'p) ctl_env \<Rightarrow> string \<Rightarrow> nat \<Rightarrow> aegis_state \<Rightarrow> (cret \<times> aegis_state) option" where
  "aectl_files_del_write env ubuf len s =
     aectl_write_op env ubuf len (\<lambda>buf s. Some (aegis_protected_file_del (Some buf) s)) s"

definition aectl_procs_add_write ::
    "('d, 'p) ctl_env \<Rightarrow> string \<Rightarrow> nat \<Rightarrow> aegis_state \<Rightarrow> cret \<times> aegis_state" where
  "aectl_procs_add_write env ubuf len s =
     (if \<not> aectl_authorized env then (Inl EPERM, s)
      else if len = 0 \<or> AEGIS_PATH_LEN \<le> len then (Inl EINVAL, s)
      else
        (case aectl_get_string ubuf len (ctl_junk env) AEGIS_PATH_LEN of
           (Inl e, _) \<Rightarrow> (Inl e, s)
         | (Inr n, buf) \<Rightarrow>
             if n = 0 then (Inr 0, s)
             else
               (case sscanf_15s_d buf (ctl_junk env) 0 of
                  (convs, comm, pid) \<Rightarrow>
                    if convs < 1 then (Inl EINVAL, s)
                    else
                      (case aegis_protect_process_add (ctl_entry_kmalloc env) (Some comm) pid s of
                         (ret, s1) \<Rightarrow> (if ret = ret0 then Inr len else ret, s1)))))"

definition aectl_procs_del_write ::
    "('d, 'p) ctl_env \<Rightarrow> string \<Rightarrow> nat \<Rightarrow> aegis_state \<Rightarrow> cret \<times> aegis_state" where
  "aectl_procs_del_write env ubuf len s =
     (if \<not> aectl_authorized env then (Inl EPERM, s)
      else if len = 0 \<or> AEGIS_PATH_LEN \<le> len then (Inl EINVAL, s)
      else
        (case aectl_get_string ubuf len (ctl_junk env) AEGIS_PATH_LEN of
           (Inl e, _) \<Rightarrow> (Inl e, s)
         | (Inr n, buf) \<Rightarrow>
             if n = 0 then (Inr 0, s)
             else
               (case sscanf_15s_d buf (ctl_junk env) 0 of
                  (convs, comm, pid) \<Rightarrow>
                    if convs < 1 then (Inl EINVAL, s)
                    else
                      (case aegis_protect_process_del (Some comm) pid s of
                         (ret, s1) \<Rightarrow> (if ret = ret0 then Inr len else ret, s1)))))"

definition aectl_syscalls_add_write ::
    "('d, 'p) ctl_env \<Rightarrow> string \<Rightarrow> nat \<Rightarrow> aegis_state \<Rightarrow> cret \<times> aegis_state" where
  "aectl_syscalls_add_write env ubuf len s =
     (if \<not> aectl_authorized env then (Inl EPERM, s)
      else if len = 0 \<or> 16 \<le> len then (Inl EINVAL, s)
      else
        (case aectl_get_string ubuf len (ctl_junk env) 16 of
           (Inl e, _) \<Rightarrow> (Inl e, s)
         | (Inr n, buf) \<Rightarrow>
             if n = 0 then (Inr 0, s)
             else
               (case kstrtoint buf of
                  Inl _ \<Rightarrow> (Inl EINVAL, s)
                | Inr nr \<Rightarrow>
                    if nr < 0 then (Inl EINVAL, s)
                    else
                      (case aegis_syscall_block_add (ctl_entry_kmalloc env) nr s of
                         (ret, s1) \<Rightarrow> (if ret = ret0 then Inr len else ret, s1)))))"

definition aectl_syscalls_del_write ::
    "('d, 'p) ctl_env \<Rightarrow> string \<Rightarrow> nat \<Rightarrow> aegis_state \<Rightarrow> cret \<times> aegis_state" where
  "aectl_syscalls_del_write env ubuf len s =
     (if \<not> aectl_authorized env then (Inl EPERM, s)
      else if len = 0 \<or> 16 \<le> len then (Inl EINVAL, s)
      else
        (case aectl_get_string ubuf len (ctl_junk env) 16 of
           (Inl e, _) \<Rightarrow> (Inl e, s)
         | (Inr n, buf) \<Rightarrow>
             if n = 0 then (Inr 0, s)
             else
               (case kstrtoint buf of
                  Inl _ \<Rightarrow> (Inl EINVAL, s)
                | Inr nr \<Rightarrow>
                    if nr < 0 then (Inl EINVAL, s)
                    else
                      (case aegis_syscall_block_del nr s of
                         (ret, s1) \<Rightarrow> (if ret = ret0 then Inr len else ret, s1)))))"


section \<open>The endpoint table\<close>

datatype endpoint =
    Files_add | Files_del | Procs_add | Procs_del | Syscalls_add | Syscalls_del

definition aectl_entries :: "(string \<times> endpoint) list" where
  "aectl_entries =
     [(''protected_files_add'', Files_add), (''protected_files_del'', Files_del),
      (''protected_procs_add'', Procs_add), (''protected_procs_del'', Procs_del),
      (''blocked_syscalls_add'', Syscalls_add), (''blocked_syscalls_del'', Syscalls_del)]"

text \<open>The \<open>write\<close> operation of the endpoint's \<open>file_operations\<close>.\<close>

fun aectl_write ::
    "('d, 'p) ctl_env \<Rightarrow> endpoint \<Rightarrow> string \<Rightarrow> nat \<Rightarrow> aegis_state \<Rightarrow>
     (cret \<times> aegis_state) option" where
  "aectl_write env Files_add ubuf len s = aectl_files_add_write env ubuf len s"
| "aectl_write env Files_del ubuf len s = aectl_files_del_write env ubuf len s"
| "aectl_write env Procs_add ubuf len s = Some (aectl_procs_add_write env ubuf len s)"
| "aectl_write env Procs_del ubuf len s = Some (aectl_procs_del_write env ubuf len s)"
| "aectl_write env Syscalls_add ubuf len s = Some (aectl_syscalls_add_write env ubuf len s)"
| "aectl_write env Syscalls_del ubuf len s = Some (aectl_syscalls_del_write env ubuf len s)"

lemmas control_defs [aegis_defs] =
  aectl_files_add_write_def aectl_files_del_write_def aectl_procs_add_write_def
  aectl_procs_del_write_def aectl_syscalls_add_write_def aectl_syscalls_del_write_def
  aectl_write_op_def aectl_authorized_def


section \<open>What the string helper delivers\<close>

definition rstrip :: "string \<Rightarrow> string" where
  "rstrip s = rev (dropWhile (\<lambda>c. c = LF \<or> c = CR) (rev s))"

lemma rstrip_Nil [simp]: "rstrip [] = []"
  by (simp add: rstrip_def)

lemma rstrip_snoc [simp]: "rstrip (s @ [c]) = (if c = LF \<or> c = CR then rstrip s else s @ [c])"
  by (simp add: rstrip_def)

lemma rstrip_id: "s = [] \<or> last s \<noteq> LF \<and> last s \<noteq> CR \<Longrightarrow> rstrip s = s"
  by (cases s rule: rev_cases) auto

lemma length_rstrip: "length (rstrip s) \<le> length s"
  using length_dropWhile_le [of "\<lambda>c. c = LF \<or> c = CR" "rev s"] by (simp add: rstrip_def)

lemma strip_result:
  assumes "n < length out" "out ! n = NUL" "NUL \<notin> set (take n out)"
  shows "fst (aectl_strip n out) = length (rstrip (take n out)) \<and>
    cstr (snd (aectl_strip n out)) = rstrip (take n out)"
  using assms
proof (induction n arbitrary: out)
  case 0
  then show ?case by (cases out) (auto simp: cstr_Cons)
next
  case (Suc n)
  have tk: "take (Suc n) out = take n out @ [out ! n]"
    using Suc.prems(1) by (simp add: take_Suc_conv_app_nth)
  show ?case
  proof (cases "out ! n = LF \<or> out ! n = CR")
    case True
    have "fst (aectl_strip n (out[n := NUL])) = length (rstrip (take n (out[n := NUL]))) \<and>
        cstr (snd (aectl_strip n (out[n := NUL]))) = rstrip (take n (out[n := NUL]))"
      using Suc.prems tk by (intro Suc.IH) auto
    with True tk show ?thesis by simp
  next
    case False
    have "out = take (Suc n) out @ NUL # drop (Suc (Suc n)) out"
      using Suc.prems(1,2) by (metis append_take_drop_id Cons_nth_drop_Suc)
    then have "cstr out = take (Suc n) out"
      using Suc.prems(3) by (metis cstr_append_NUL cstr_id)
    with False tk Suc.prems(1) show ?thesis by simp
  qed
qed

text \<open>
  A call either fails (fault, embedded NUL) or delivers the first \<open>maxlen - 1\<close> bytes of the
  write, without trailing line ends, as a terminated string whose length it returns.
\<close>

lemma get_string_cases:
  fixes ubuf :: string and len maxlen :: nat
  defines "n \<equiv> min len (maxlen - 1)"
  obtains (fault) "length ubuf < n" "fst (aectl_get_string ubuf len out maxlen) = Inl EFAULT"
  | (nul) "n \<le> length ubuf" "NUL \<in> set (take n ubuf)"
      "fst (aectl_get_string ubuf len out maxlen) = Inl EINVAL"
  | (string) buf where "n \<le> length ubuf" "NUL \<notin> set (take n ubuf)"
      "aectl_get_string ubuf len out maxlen = (Inr (length (rstrip (take n ubuf))), buf)"
      "cstr buf = rstrip (take n ubuf)"
proof (cases "n \<le> length ubuf")
  case False
  then show ?thesis
    by (intro fault) (auto simp: aectl_get_string_def copy_from_user_def n_def Let_def)
next
  case True
  let ?out = "take n ubuf @ [NUL] @ drop (Suc n) out"
  have copy: "copy_from_user ubuf n = Some (take n ubuf)"
    using True by (simp add: copy_from_user_def)
  have len: "length (take n ubuf) = n" using True by simp
  have tk: "take n ?out = take n ubuf" using len by simp
  have sn: "strnlen ?out n = n \<longleftrightarrow> NUL \<notin> set (take n ubuf)"
    using strnlen_eq_iff [of n ?out] len tk by simp
  have eq: "aectl_get_string ubuf len out maxlen =
      (if strnlen ?out n \<noteq> n then (Inl EINVAL, ?out)
       else (Inr (fst (aectl_strip n ?out)), snd (aectl_strip n ?out)))"
    unfolding aectl_get_string_def Let_def n_def [symmetric] copy by (simp add: case_prod_beta)
  show ?thesis
  proof (cases "NUL \<in> set (take n ubuf)")
    case True
    with \<open>n \<le> length ubuf\<close> sn eq show ?thesis by (intro nul) auto
  next
    case False
    have "?out ! n = NUL" using len by (simp add: nth_append)
    then have "fst (aectl_strip n ?out) = length (rstrip (take n ubuf)) \<and>
        cstr (snd (aectl_strip n ?out)) = rstrip (take n ubuf)"
      using strip_result [of n ?out] False len tk by simp
    with \<open>n \<le> length ubuf\<close> False sn eq show ?thesis by (intro string) auto
  qed
qed

lemma get_string_fail_iff:
  "(\<exists>e. fst (aectl_get_string ubuf len out maxlen) = Inl e) \<longleftrightarrow>
     length ubuf < min len (maxlen - 1) \<or> NUL \<in> set (take (min len (maxlen - 1)) ubuf)"
  by (cases rule: get_string_cases [where ubuf = ubuf and len = len and maxlen = maxlen and out = out]) (auto dest: in_set_takeD)

lemma get_string_buf:
  assumes "aectl_get_string ubuf len out maxlen = (Inr m, buf)"
  shows "cstr buf = rstrip (take (min len (maxlen - 1)) ubuf) \<and> m = length (cstr buf) \<and>
    length (cstr buf) \<le> maxlen - 1"
proof (cases rule: get_string_cases [where ubuf = ubuf and len = len and maxlen = maxlen and out = out])
  case (string b)
  with assms length_rstrip [of "take (min len (maxlen - 1)) ubuf"] show ?thesis by auto
qed (use assms in simp_all)

end
