(* ===== verification/Aegis_Endpoints.thy ===== *)
theory Aegis_Endpoints
  imports Aegis_Control
begin

text \<open>
  What the write endpoints of \<^verbatim>\<open>aegis/aegis_control.c\<close> promise: who may use them, that
  a write is all or nothing, that no bytes written can damage the lists, and what a
  well-formed text means to each endpoint, up to the cases where the text is cut.
\<close>

section \<open>What the operations behind the endpoints promise\<close>

text \<open>A failed list operation changes nothing, a successful one returns 0.\<close>

lemma op_fails:
  "aegis_protect_process_add km c p s = (Inl e, t) \<Longrightarrow> t = s"
  "aegis_protect_process_del c p s = (Inl e, t) \<Longrightarrow> t = s"
  "aegis_syscall_block_add km nr s = (Inl e, t) \<Longrightarrow> t = s"
  "aegis_syscall_block_del nr s = (Inl e, t) \<Longrightarrow> t = s"
  "aegis_protected_file_del f s = (Inl e, t) \<Longrightarrow> t = s"
  "aegis_protected_file_add fe f s = Some (Inl e, t) \<Longrightarrow> t = s"
  by (auto simp: aegis_protect_process_add_def aegis_protect_process_del_def
      aegis_syscall_block_add_def aegis_syscall_block_del_def aegis_protected_file_del_def
      aegis_protected_file_add_def split: option.splits sum.splits if_splits)

lemma op_zero:
  "aegis_protect_process_add km c p s = (Inr n, t) \<Longrightarrow> n = 0"
  "aegis_protect_process_del c p s = (Inr n, t) \<Longrightarrow> n = 0"
  "aegis_syscall_block_add km nr s = (Inr n, t) \<Longrightarrow> n = 0"
  "aegis_syscall_block_del nr s = (Inr n, t) \<Longrightarrow> n = 0"
  "aegis_protected_file_del f s = (Inr n, t) \<Longrightarrow> n = 0"
  "aegis_protected_file_add fe f s = Some (Inr n, t) \<Longrightarrow> n = 0"
  by (auto simp: aegis_protect_process_add_def aegis_protect_process_del_def
      aegis_syscall_block_add_def aegis_syscall_block_del_def aegis_protected_file_del_def
      aegis_protected_file_add_def split: option.splits sum.splits if_splits)

text \<open>The list operation a write reaches.\<close>

inductive reached ::
    "('d, 'p) ctl_env \<Rightarrow> string \<Rightarrow> nat \<Rightarrow> aegis_state \<Rightarrow> endpoint \<Rightarrow> cret \<times> aegis_state \<Rightarrow> bool"
  for env ubuf len s where
  r_files_add: "aectl_get_string ubuf len (ctl_junk env) AEGIS_PATH_LEN = (Inr (Suc n), buf) \<Longrightarrow>
     aegis_protected_file_add (ctl_file env) (Some buf) s = Some x \<Longrightarrow>
     reached env ubuf len s Files_add x"
| r_files_del: "aectl_get_string ubuf len (ctl_junk env) AEGIS_PATH_LEN = (Inr (Suc n), buf) \<Longrightarrow>
     aegis_protected_file_del (Some buf) s = x \<Longrightarrow> reached env ubuf len s Files_del x"
| r_procs_add: "aectl_get_string ubuf len (ctl_junk env) AEGIS_PATH_LEN = (Inr (Suc n), buf) \<Longrightarrow>
     sscanf_15s_d buf (ctl_junk env) 0 = (Suc k, comm, pid) \<Longrightarrow>
     aegis_protect_process_add (ctl_entry_kmalloc env) (Some comm) pid s = x \<Longrightarrow>
     reached env ubuf len s Procs_add x"
| r_procs_del: "aectl_get_string ubuf len (ctl_junk env) AEGIS_PATH_LEN = (Inr (Suc n), buf) \<Longrightarrow>
     sscanf_15s_d buf (ctl_junk env) 0 = (Suc k, comm, pid) \<Longrightarrow>
     aegis_protect_process_del (Some comm) pid s = x \<Longrightarrow> reached env ubuf len s Procs_del x"
| r_syscalls_add: "aectl_get_string ubuf len (ctl_junk env) 16 = (Inr (Suc n), buf) \<Longrightarrow>
     kstrtoint buf = Inr nr \<Longrightarrow> 0 \<le> nr \<Longrightarrow>
     aegis_syscall_block_add (ctl_entry_kmalloc env) nr s = x \<Longrightarrow>
     reached env ubuf len s Syscalls_add x"
| r_syscalls_del: "aectl_get_string ubuf len (ctl_junk env) 16 = (Inr (Suc n), buf) \<Longrightarrow>
     kstrtoint buf = Inr nr \<Longrightarrow> 0 \<le> nr \<Longrightarrow>
     aegis_syscall_block_del nr s = x \<Longrightarrow> reached env ubuf len s Syscalls_del x"

inductive_cases reachedE: "reached env ubuf len s ep x"

text \<open>
  Every write that returns either stops before any list operation, with an error or 0 and the
  state unchanged, or is authorised and reaches its list operation.
\<close>

lemma write_op_cases:
  assumes "aectl_write_op env ubuf len oper s = Some (r, t)"
  shows "t = s \<and> (r = ret0 \<or> (\<exists>e. r = Inl e)) \<or>
    aectl_authorized env \<and> (\<exists>n buf r'. aectl_get_string ubuf len (ctl_junk env) AEGIS_PATH_LEN =
      (Inr (Suc n), buf) \<and> oper buf s = Some (r', t) \<and> r = (if r' = ret0 then Inr len else r'))"
proof (cases "aectl_get_string ubuf len (ctl_junk env) AEGIS_PATH_LEN")
  case (Pair a buf)
  then show ?thesis
    using assms
    by (cases a; cases "projr a")
      (auto simp: aectl_write_op_def split: if_splits option.splits prod.splits)
qed

text \<open>The shape the two process handlers share, and the one the two syscall handlers share.\<close>

lemma procs_body_cases:
  assumes "(if \<not> aectl_authorized env then (Inl EPERM, s)
      else if len = 0 \<or> AEGIS_PATH_LEN \<le> len then (Inl EINVAL, s)
      else
        (case aectl_get_string ubuf len (ctl_junk env) AEGIS_PATH_LEN of
           (Inl e, _) \<Rightarrow> (Inl e, s)
         | (Inr n, buf) \<Rightarrow>
             if n = 0 then (Inr 0, s)
             else
               (case sscanf_15s_d buf (ctl_junk env) 0 of
                  (convs, comm, pid) \<Rightarrow>
                    if convs < 1 then (Inl EINVAL, s)
                    else (case oper comm pid of
                            (ret, s1) \<Rightarrow> (if ret = ret0 then Inr len else ret, s1))))) = (r, t)"
  shows "t = s \<and> (r = ret0 \<or> (\<exists>e. r = Inl e)) \<or>
    aectl_authorized env \<and> (\<exists>n buf k comm pid r'.
      aectl_get_string ubuf len (ctl_junk env) AEGIS_PATH_LEN = (Inr (Suc n), buf) \<and>
      sscanf_15s_d buf (ctl_junk env) 0 = (Suc k, comm, pid) \<and> oper comm pid = (r', t) \<and>
      r = (if r' = ret0 then Inr len else r'))"
proof -
  obtain a buf where g: "aectl_get_string ubuf len (ctl_junk env) AEGIS_PATH_LEN = (a, buf)"
    by fastforce
  obtain k comm pid where sc: "sscanf_15s_d buf (ctl_junk env) 0 = (k, comm, pid)"
    by (metis prod_cases3)
  show ?thesis
    using assms g sc
    by (cases a; cases "projr a"; cases k; cases "oper comm pid") (auto split: if_splits)
qed

lemma syscalls_body_cases:
  assumes "(if \<not> aectl_authorized env then (Inl EPERM, s)
      else if len = 0 \<or> 16 \<le> len then (Inl EINVAL, s)
      else
        (case aectl_get_string ubuf len (ctl_junk env) 16 of
           (Inl e, _) \<Rightarrow> (Inl e, s)
         | (Inr n, buf) \<Rightarrow>
             if n = 0 then (Inr 0, s)
             else
               (case kstrtoint buf of
                  Inl _ \<Rightarrow> (Inl EINVAL, s)
                | Inr nr \<Rightarrow>
                    if nr < 0 then (Inl EINVAL, s)
                    else (case oper nr of
                            (ret, s1) \<Rightarrow> (if ret = ret0 then Inr len else ret, s1))))) = (r, t)"
  shows "t = s \<and> (r = ret0 \<or> (\<exists>e. r = Inl e)) \<or>
    aectl_authorized env \<and> (\<exists>n buf nr r'.
      aectl_get_string ubuf len (ctl_junk env) 16 = (Inr (Suc n), buf) \<and>
      kstrtoint buf = Inr nr \<and> 0 \<le> nr \<and> oper nr = (r', t) \<and>
      r = (if r' = ret0 then Inr len else r'))"
proof -
  obtain a buf where g: "aectl_get_string ubuf len (ctl_junk env) 16 = (a, buf)"
    by fastforce
  show ?thesis
    using assms g
    by (cases a; cases "projr a"; cases "kstrtoint buf"; cases "oper (projr (kstrtoint buf))")
      (auto split: if_splits)
qed

lemma write_cases:
  assumes "aectl_write env ep ubuf len s = Some (r, t)"
  obtains (stopped) "t = s" "r = ret0 \<or> (\<exists>e. r = Inl e)"
  | (operated) r' where "aectl_authorized env" "reached env ubuf len s ep (r', t)"
      "r = (if r' = ret0 then Inr len else r')"
proof -
  have "t = s \<and> (r = ret0 \<or> (\<exists>e. r = Inl e)) \<or> (\<exists>r'. aectl_authorized env \<and>
      reached env ubuf len s ep (r', t) \<and> r = (if r' = ret0 then Inr len else r'))"
  proof (cases ep)
    case Files_add
    with assms have "aectl_write_op env ubuf len (\<lambda>buf. aegis_protected_file_add (ctl_file env) (Some buf)) s = Some (r, t)"
      by (simp add: aectl_files_add_write_def)
    from write_op_cases [OF this] show ?thesis
      unfolding Files_add by (blast intro: reached.r_files_add)
  next
    case Files_del
    with assms have "aectl_write_op env ubuf len (\<lambda>buf s. Some (aegis_protected_file_del (Some buf) s)) s = Some (r, t)"
      by (simp add: aectl_files_del_write_def)
    from write_op_cases [OF this] show ?thesis
      unfolding Files_del option.inject by (blast intro: reached.r_files_del)
  next
    case Procs_add
    with assms have "aectl_procs_add_write env ubuf len s = (r, t)" by simp
    from procs_body_cases [OF this [unfolded aectl_procs_add_write_def]] show ?thesis
      unfolding Procs_add by (blast intro: reached.r_procs_add)
  next
    case Procs_del
    with assms have "aectl_procs_del_write env ubuf len s = (r, t)" by simp
    from procs_body_cases [OF this [unfolded aectl_procs_del_write_def]] show ?thesis
      unfolding Procs_del by (blast intro: reached.r_procs_del)
  next
    case Syscalls_add
    with assms have "aectl_syscalls_add_write env ubuf len s = (r, t)" by simp
    from syscalls_body_cases [OF this [unfolded aectl_syscalls_add_write_def]] show ?thesis
      unfolding Syscalls_add by (blast intro: reached.r_syscalls_add)
  next
    case Syscalls_del
    with assms have "aectl_syscalls_del_write env ubuf len s = (r, t)" by simp
    from syscalls_body_cases [OF this [unfolded aectl_syscalls_del_write_def]] show ?thesis
      unfolding Syscalls_del by (blast intro: reached.r_syscalls_del)
  qed
  then show ?thesis using that by blast
qed

lemma reached_results:
  assumes "reached env ubuf len s ep (r, t)"
  shows "r = ret0 \<or> (\<exists>e. r = Inl e \<and> t = s)"
  using assms by cases (cases r; auto dest: op_fails op_zero)+


section \<open>The lists stay well formed under any input\<close>

definition lists_wf :: "aegis_state \<Rightarrow> bool" where
  "lists_wf s \<longleftrightarrow> procs_wf s \<and> files_wf s \<and> syscalls_wf s"

lemma wf_by_fields:
  "protected_procs t = protected_procs s \<Longrightarrow> protected_proc_count t = protected_proc_count s \<Longrightarrow>
   procs_wf t = procs_wf s"
  "protected_files t = protected_files s \<Longrightarrow> protected_file_count t = protected_file_count s \<Longrightarrow>
   files_wf t = files_wf s"
  "blocked_syscalls t = blocked_syscalls s \<Longrightarrow> blocked_syscall_count t = blocked_syscall_count s \<Longrightarrow>
   syscalls_wf t = syscalls_wf s"
  by (simp_all add: procs_wf_def files_wf_def syscalls_wf_def)

lemma get_string_file_valid:
  "aectl_get_string ubuf len out AEGIS_PATH_LEN = (Inr n, buf) \<Longrightarrow> file_valid buf"
  using get_string_buf [of ubuf len out AEGIS_PATH_LEN n buf]
  by (auto simp: file_valid_def AEGIS_PATH_LEN_def)

lemma sscanf_comm_len:
  "sscanf_15s_d buf junk p = (Suc k, comm, pid) \<Longrightarrow> length (cstr comm) < AEGIS_COMM_LEN"
  using sscanf_token [of buf junk p "Suc k" comm pid] length_cstr_le [of comm]
  by (auto simp: AEGIS_COMM_LEN_def)

lemma reached_wf:
  assumes "reached env ubuf len s ep (r, t)" "lists_wf s"
  shows "lists_wf t \<and> aegis_cfg t = aegis_cfg s"
  using assms(1)
proof cases
  case (r_files_add n buf)
  note fr = file_add_frame [OF r_files_add(3)]
  show ?thesis
    using files_wf_add [OF _ get_string_file_valid [OF r_files_add(2)] r_files_add(3)] assms(2)
      wf_by_fields [of t s] fr by (simp add: lists_wf_def)
next
  case (r_files_del n buf)
  then have t: "t = snd (aegis_protected_file_del (Some buf) s)" by simp
  show ?thesis
    using files_wf_del [of s "Some buf"] assms(2) wf_by_fields [of t s] by (simp add: lists_wf_def t)
next
  case (r_procs_add n buf k comm pid)
  then have t: "t = snd (aegis_protect_process_add (ctl_entry_kmalloc env) (Some comm) pid s)" by simp
  show ?thesis
    using procs_wf_add [OF _ sscanf_comm_len [OF r_procs_add(3)], of s "ctl_entry_kmalloc env" pid]
      assms(2) wf_by_fields [of t s] by (simp add: lists_wf_def t)
next
  case (r_procs_del n buf k comm pid)
  then have t: "t = snd (aegis_protect_process_del (Some comm) pid s)" by simp
  show ?thesis
    using procs_wf_del [of s "Some comm" pid] assms(2) wf_by_fields [of t s]
    by (simp add: lists_wf_def t)
next
  case (r_syscalls_add n buf nr)
  then have t: "t = snd (aegis_syscall_block_add (ctl_entry_kmalloc env) nr s)" by simp
  show ?thesis
    using syscalls_wf_add [of s "ctl_entry_kmalloc env" nr] assms(2) wf_by_fields [of t s]
    by (simp add: lists_wf_def t)
next
  case (r_syscalls_del n buf nr)
  then have t: "t = snd (aegis_syscall_block_del nr s)" by simp
  show ?thesis
    using syscalls_wf_del [of s nr] assms(2) wf_by_fields [of t s] by (simp add: lists_wf_def t)
qed

lemma write_wf:
  assumes "aectl_write env ep ubuf len s = Some (r, t)" "lists_wf s"
  shows "lists_wf t \<and> aegis_cfg t = aegis_cfg s"
  using assms(1) by (rule write_cases) (use assms(2) reached_wf in blast)+

lemma write_atomic:
  assumes "aectl_write env ep ubuf len s = Some (r, t)"
  shows "t = s \<and> (r = ret0 \<or> (\<exists>e. r = Inl e)) \<or> aectl_authorized env \<and> r = Inr len"
  using assms
proof (rule write_cases)
  fix r'
  assume "aectl_authorized env" "reached env ubuf len s ep (r', t)"
    "r = (if r' = ret0 then Inr len else r')"
  then show ?thesis using reached_results by fastforce
qed blast


lemma write_refused: "\<not> capable_mac_admin env \<Longrightarrow> aectl_write env ep ubuf len s = Some (Inl EPERM, s)"
  by (cases ep) (simp_all add: control_defs)


section \<open>What a well-formed write means\<close>

text \<open>The operations and parsers see their string arguments up to the terminator.\<close>

lemma file_hit_cstr: "cstr p = cstr q \<Longrightarrow> file_hit p = file_hit q"
  by (rule ext) (simp add: file_hit_def strncmp_0_iff)

lemma file_ops_cstr:
  assumes "cstr p = cstr q"
  shows "aegis_protected_file_add fe (Some p) s = aegis_protected_file_add fe (Some q) s"
    and "aegis_protected_file_del (Some p) s = aegis_protected_file_del (Some q) s"
  unfolding aegis_protected_file_add_def aegis_protected_file_del_def file_add_check_def
    file_new_def option.case file_hit_cstr [OF assms] strscpy_def assms by (rule refl)+

lemma parse_cstr:
  "cstr p = cstr q \<Longrightarrow> sscanf_15s_d p c v = sscanf_15s_d q c v"
  "cstr p = cstr q \<Longrightarrow> kstrtoint p = kstrtoint q"
  by (simp_all add: sscanf_15s_d_def kstrtoint_def)

text \<open>A text a user writes to an endpoint: no NUL, not ending in a line end.\<close>

definition plain_text :: "string \<Rightarrow> bool" where
  "plain_text p \<longleftrightarrow> p \<noteq> [] \<and> NUL \<notin> set p \<and> last p \<noteq> LF \<and> last p \<noteq> CR"

lemma get_string_text:
  assumes "plain_text p" "nl = [] \<or> nl = [LF]" "length p < maxlen"
  shows "\<exists>buf. aectl_get_string (p @ nl) (length (p @ nl)) out maxlen = (Inr (length p), buf) \<and>
    cstr buf = p"
proof -
  let ?n = "min (length (p @ nl)) (maxlen - 1)"
  have tk: "take ?n (p @ nl) = p \<or> take ?n (p @ nl) = p @ [LF]"
    using assms(2,3) by (auto simp: min_def)
  have "rstrip x = p \<and> NUL \<notin> set x" if "x = p \<or> x = p @ [LF]" for x
    using that rstrip_id [of p] assms(1) by (auto simp: plain_text_def)
  from this [OF tk] have strip: "rstrip (take ?n (p @ nl)) = p"
    and nn: "NUL \<notin> set (take ?n (p @ nl))" by blast+
  show ?thesis
    by (cases rule: get_string_cases [where ubuf = "p @ nl" and len = "length (p @ nl)"
          and maxlen = maxlen and out = out])
      (use strip nn in \<open>simp_all del: take_append\<close>)
qed

lemma write_op_text:
  assumes "aectl_authorized env" "ctl_kmalloc env" "plain_text p" "nl = [] \<or> nl = [LF]"
    and "length p < AEGIS_PATH_LEN"
  shows "\<exists>buf. cstr buf = p \<and> (\<forall>oper. aectl_write_op env (p @ nl) (length (p @ nl)) oper s =
    (case oper buf s of None \<Rightarrow> None
     | Some (r, t) \<Rightarrow> Some (if r = ret0 then Inr (length (p @ nl)) else r, t)))"
proof -
  obtain buf where g: "aectl_get_string (p @ nl) (length (p @ nl)) (ctl_junk env) AEGIS_PATH_LEN =
      (Inr (length p), buf)" and b: "cstr buf = p"
    using get_string_text [OF assms(3-5)] by blast
  have "length (p @ nl) \<noteq> 0" "\<not> AEGIS_PATH_LEN < length (p @ nl)" "length p \<noteq> 0"
    using assms(3-5) by (auto simp: plain_text_def)
  then have "aectl_write_op env (p @ nl) (length (p @ nl)) oper s =
    (case oper buf s of None \<Rightarrow> None
     | Some (r, t) \<Rightarrow> Some (if r = ret0 then Inr (length (p @ nl)) else r, t))" for oper
    unfolding aectl_write_op_def g using assms(1,2) by simp
  with b show ?thesis by blast
qed

lemma procs_write_text:
  assumes "aectl_authorized env" "plain_text p" "nl = [] \<or> nl = [LF]"
    and "length (p @ nl) < AEGIS_PATH_LEN" "sscanf_15s_d p (ctl_junk env) 0 = (Suc k, comm, pid)"
  shows "aectl_procs_add_write env (p @ nl) (length (p @ nl)) s =
      (case aegis_protect_process_add (ctl_entry_kmalloc env) (Some comm) pid s of
         (r, t) \<Rightarrow> (if r = ret0 then Inr (length (p @ nl)) else r, t))"
    and "aectl_procs_del_write env (p @ nl) (length (p @ nl)) s =
      (case aegis_protect_process_del (Some comm) pid s of
         (r, t) \<Rightarrow> (if r = ret0 then Inr (length (p @ nl)) else r, t))"
proof -
  have "length p < AEGIS_PATH_LEN" using assms(4) by simp
  then obtain buf where g: "aectl_get_string (p @ nl) (length (p @ nl)) (ctl_junk env)
      AEGIS_PATH_LEN = (Inr (length p), buf)" and b: "cstr buf = p"
    using get_string_text [OF assms(2,3)] by blast
  have p: "cstr p = p" using assms(2) by (simp add: plain_text_def cstr_id)
  have sc: "sscanf_15s_d buf (ctl_junk env) 0 = (Suc k, comm, pid)"
    using parse_cstr(1) [of buf p] assms(5) b p by simp
  have ne: "length (p @ nl) \<noteq> 0" "\<not> AEGIS_PATH_LEN \<le> length (p @ nl)" "length p \<noteq> 0"
    using assms(2,4) by (auto simp: plain_text_def)
  show "aectl_procs_add_write env (p @ nl) (length (p @ nl)) s =
      (case aegis_protect_process_add (ctl_entry_kmalloc env) (Some comm) pid s of
         (r, t) \<Rightarrow> (if r = ret0 then Inr (length (p @ nl)) else r, t))"
    unfolding aectl_procs_add_write_def g using ne assms(1) sc by simp
  show "aectl_procs_del_write env (p @ nl) (length (p @ nl)) s =
      (case aegis_protect_process_del (Some comm) pid s of
         (r, t) \<Rightarrow> (if r = ret0 then Inr (length (p @ nl)) else r, t))"
    unfolding aectl_procs_del_write_def g using ne assms(1) sc by simp
qed

lemma syscalls_write_text:
  assumes "aectl_authorized env" "plain_text p" "nl = [] \<or> nl = [LF]"
    and "length (p @ nl) < 16" "kstrtoint p = Inr nr" "0 \<le> nr"
  shows "aectl_syscalls_add_write env (p @ nl) (length (p @ nl)) s =
      (case aegis_syscall_block_add (ctl_entry_kmalloc env) nr s of
         (r, t) \<Rightarrow> (if r = ret0 then Inr (length (p @ nl)) else r, t))"
    and "aectl_syscalls_del_write env (p @ nl) (length (p @ nl)) s =
      (case aegis_syscall_block_del nr s of
         (r, t) \<Rightarrow> (if r = ret0 then Inr (length (p @ nl)) else r, t))"
proof -
  have "length p < 16" using assms(4) by simp
  then obtain buf where g: "aectl_get_string (p @ nl) (length (p @ nl)) (ctl_junk env) 16 =
      (Inr (length p), buf)" and b: "cstr buf = p"
    using get_string_text [OF assms(2,3)] by blast
  have p: "cstr p = p" using assms(2) by (simp add: plain_text_def cstr_id)
  have sc: "kstrtoint buf = Inr nr"
    using parse_cstr(2) [of buf p] assms(5) b p by simp
  have ne: "length (p @ nl) \<noteq> 0" "\<not> 16 \<le> length (p @ nl)" "length p \<noteq> 0"
    using assms(2,4) by (auto simp: plain_text_def)
  show "aectl_syscalls_add_write env (p @ nl) (length (p @ nl)) s =
      (case aegis_syscall_block_add (ctl_entry_kmalloc env) nr s of
         (r, t) \<Rightarrow> (if r = ret0 then Inr (length (p @ nl)) else r, t))"
    unfolding aectl_syscalls_add_write_def g using ne assms(1,6) sc by simp
  show "aectl_syscalls_del_write env (p @ nl) (length (p @ nl)) s =
      (case aegis_syscall_block_del nr s of
         (r, t) \<Rightarrow> (if r = ret0 then Inr (length (p @ nl)) else r, t))"
    unfolding aectl_syscalls_del_write_def g using ne assms(1,6) sc by simp
qed

text \<open>Words and decimal numbers are plain text.\<close>

lemma last_not_LF_CR: "\<not> isspace c \<Longrightarrow> c \<noteq> LF \<and> c \<noteq> CR"
  by (auto simp: isspace_def)

lemma plain_no_space: "w \<noteq> [] \<Longrightarrow> \<forall>x\<in>set w. \<not> isspace x \<and> x \<noteq> NUL \<Longrightarrow> plain_text w"
  using last_in_set [of w] last_not_LF_CR [of "last w"] by (auto simp: plain_text_def)

lemma plain_append: "NUL \<notin> set v \<Longrightarrow> plain_text w \<Longrightarrow> plain_text (v @ w)"
  by (auto simp: plain_text_def)

lemma plain_fmt_d: "plain_text (fmt_d i)"
  by (rule plain_no_space) (use fmt_d_no_space_NUL [of i] in auto)

lemma length_fmt_u: "n < 10 ^ Suc k \<Longrightarrow> length (fmt_u n) \<le> Suc k"
proof (induction k arbitrary: n)
  case 0
  then show ?case by (simp add: fmt_u_rec [of n])
next
  case (Suc k)
  show ?case
  proof (cases "n < 10")
    case True
    then show ?thesis by (simp add: fmt_u_rec [of n])
  next
    case False
    have "n div 10 < 10 ^ Suc k" using Suc.prems by (simp add: less_mult_imp_div_less)
    with Suc.IH False show ?thesis by (simp add: fmt_u_rec [of n])
  qed
qed

lemma length_fmt_d: "0 \<le> i \<Longrightarrow> int32 i \<Longrightarrow> length (fmt_d i) \<le> 10"
  using length_fmt_u [of "nat i" 9] by (auto simp: fmt_d_def int32_def)

lemma length_fmt_d_le:
  assumes "int32 i"
  shows "length (fmt_d i) \<le> 11"
proof (cases "0 \<le> i")
  case True
  then show ?thesis using length_fmt_d [OF True assms] by simp
next
  case False
  then have "nat (- i) < 10 ^ Suc 9" using assms by (simp add: int32_def)
  from length_fmt_u [OF this] False show ?thesis by (simp add: fmt_d_def)
qed


section \<open>A concrete caller\<close>

definition demo_ctl :: "bool \<Rightarrow> (8 word list, unit) ctl_env" where
  "demo_ctl admin =
     \<lparr>capable_mac_admin = admin, ctl_kmalloc = True, ctl_junk = replicate 256 (CHR ''x''),
      ctl_entry_kmalloc = True, ctl_file = demo_fe (chunk_reader [7, 8])\<rparr>"

lemma demo_ctl_fields [simp]:
  "aectl_authorized (demo_ctl admin) = admin" "ctl_kmalloc (demo_ctl admin)"
  "ctl_entry_kmalloc (demo_ctl admin)" "ctl_file (demo_ctl admin) = demo_fe (chunk_reader [7, 8])"
  by (simp_all add: demo_ctl_def aectl_authorized_def)

lemma lists_wf_statics [simp]: "lists_wf aegis_statics"
  by (simp add: lists_wf_def)

lemma plain_shadow: "plain_text ''/etc/shadow''"
  by (simp add: plain_text_def)


section \<open>Properties\<close>

text \<open>
  C18: A write is all or nothing. When it returns, either the whole length is reported written,
  by a privileged caller, or the state is unchanged and the result is an error or 0 (nothing
  but line ends).
\<close>

theorem control_write_atomic:
  assumes "aectl_write env ep ubuf len s = Some (r, t)"
  shows "t = s \<and> (r = ret0 \<or> (\<exists>e. r = Inl e)) \<or> capable_mac_admin env \<and> r = Inr len"
  using write_atomic [OF assms] by (simp add: aectl_authorized_def)

theorem control_write_atomic_witness:
  "aectl_write (demo_ctl True) Syscalls_add ''x'' 1 aegis_statics = Some (Inl EINVAL, aegis_statics) \<and>
   (aegis_statics = aegis_statics \<and> (Inl EINVAL = ret0 \<or> (\<exists>e. Inl EINVAL = Inl e)) \<or>
    capable_mac_admin (demo_ctl True) \<and> Inl EINVAL = Inr (1 :: nat))"
proof -
  have "aectl_write (demo_ctl True) Syscalls_add ''x'' 1 aegis_statics = Some (Inl EINVAL, aegis_statics)"
    by (simp add: aectl_syscalls_add_write_def aectl_get_string_def copy_from_user_def strnlen_def
        cstr_Cons kstrtoint_def kstrtoull_def isdigit_def)
  with control_write_atomic [OF this] show ?thesis by blast
qed

text \<open>
  No input corrupts the lists. Any bytes written to any endpoint, with any length, leave
  all three lists well formed (counter, bound, terminated names, distinct keys) and the
  configuration unchanged.
\<close>

lemma control_write_keeps_lists_wf:
  assumes "aectl_write env ep ubuf len s = Some (r, t)" and "lists_wf s"
  shows "lists_wf t \<and> aegis_cfg t = aegis_cfg s"
  by (rule write_wf [OF assms])

text \<open>
  Writing a path to the file endpoints, with or without a final line feed, adds or removes
  exactly that path, and reports the whole write consumed on success and the operation's error
  otherwise.
\<close>

lemma file_endpoints_take_paths:
  assumes "capable_mac_admin env" and "ctl_kmalloc env"
    and "plain_text p" and "length p < AEGIS_PATH_LEN" and "nl = [] \<or> nl = [LF]"
  shows "aectl_write env Files_add (p @ nl) (length (p @ nl)) s =
      (case aegis_protected_file_add (ctl_file env) (Some p) s of
         None \<Rightarrow> None
       | Some (r, t) \<Rightarrow> Some (if r = ret0 then Inr (length (p @ nl)) else r, t)) \<and>
    aectl_write env Files_del (p @ nl) (length (p @ nl)) s =
      (case aegis_protected_file_del (Some p) s of
         (r, t) \<Rightarrow> Some (if r = ret0 then Inr (length (p @ nl)) else r, t))"
proof -
  have auth: "aectl_authorized env" using assms(1) by (simp add: aectl_authorized_def)
  obtain buf where b: "cstr buf = p" and w: "\<And>oper. aectl_write_op env (p @ nl) (length (p @ nl)) oper s =
    (case oper buf s of None \<Rightarrow> None
     | Some (r, t) \<Rightarrow> Some (if r = ret0 then Inr (length (p @ nl)) else r, t))"
    using write_op_text [OF auth assms(2,3,5,4)] by blast
  have p: "cstr buf = cstr p" using b assms(3) by (simp add: plain_text_def cstr_id)
  show ?thesis
    unfolding aectl_write.simps aectl_files_add_write_def aectl_files_del_write_def w
      file_ops_cstr [OF p] option.case by simp
qed

text \<open>
  Writing to the process endpoints names the entry as documented: a name of up to 15 bytes
  means the name with pid 0, a name and a decimal pid mean that pair; adding and removing agree
  on it.
\<close>

lemma proc_endpoints_take_names:
  assumes "capable_mac_admin env" and "comm_word c" and "int32 pid" and "nl = [] \<or> nl = [LF]"
    and "(txt, p) \<in> {(c, 0), (c @ '' '' @ fmt_d pid, pid)}"
  shows "aectl_write env Procs_add (txt @ nl) (length (txt @ nl)) s =
      (case aegis_protect_process_add (ctl_entry_kmalloc env) (Some c) p s of
         (r, t) \<Rightarrow> Some (if r = ret0 then Inr (length (txt @ nl)) else r, t)) \<and>
    aectl_write env Procs_del (txt @ nl) (length (txt @ nl)) s =
      (case aegis_protect_process_del (Some c) p s of
         (r, t) \<Rightarrow> Some (if r = ret0 then Inr (length (txt @ nl)) else r, t))"
proof -
  have auth: "aectl_authorized env" using assms(1) by (simp add: aectl_authorized_def)
  have c: "plain_text c" "length c \<le> 15" "NUL \<notin> set c"
    using assms(2) plain_no_space [of c] by (auto simp: comm_word_def)
  have nl: "length nl \<le> 1" using assms(4) by auto
  have "plain_text (c @ '' '' @ fmt_d pid)"
    using c(3) plain_append [of "c @ '' ''" "fmt_d pid"] plain_fmt_d [of pid] by simp
  then have plain: "plain_text txt" using c(1) assms(5) by auto
  have len: "length (txt @ nl) < AEGIS_PATH_LEN"
    using c(2) nl length_fmt_d_le [OF assms(3)] assms(5) by (auto simp: AEGIS_PATH_LEN_def)
  have "\<exists>k. sscanf_15s_d txt (ctl_junk env) 0 = (Suc k, c, p)"
    using sscanf_comm [OF assms(2)] sscanf_comm_pid [OF assms(2,3)] assms(5)
    by (auto simp: numeral_2_eq_2)
  then obtain k where "sscanf_15s_d txt (ctl_junk env) 0 = (Suc k, c, p)" by blast
  from procs_write_text [OF auth plain assms(4) len this] show ?thesis
    by (simp split: prod.split)
qed

text \<open>
  Writing a decimal system call number adds or removes exactly that number, for every
  non-negative \<open>int\<close>.
\<close>

lemma syscall_endpoints_take_numbers:
  assumes "capable_mac_admin env" and "0 \<le> nr" and "int32 nr" and "nl = [] \<or> nl = [LF]"
  shows "aectl_write env Syscalls_add (fmt_d nr @ nl) (length (fmt_d nr @ nl)) s =
      (case aegis_syscall_block_add (ctl_entry_kmalloc env) nr s of
         (r, t) \<Rightarrow> Some (if r = ret0 then Inr (length (fmt_d nr @ nl)) else r, t)) \<and>
    aectl_write env Syscalls_del (fmt_d nr @ nl) (length (fmt_d nr @ nl)) s =
      (case aegis_syscall_block_del nr s of
         (r, t) \<Rightarrow> Some (if r = ret0 then Inr (length (fmt_d nr @ nl)) else r, t))"
proof -
  have auth: "aectl_authorized env" using assms(1) by (simp add: aectl_authorized_def)
  have "length (fmt_d nr @ nl) < 16"
    using length_fmt_d [OF assms(2,3)] assms(4) by auto
  from syscalls_write_text [OF auth plain_fmt_d assms(4) this kstrtoint_fmt_d [OF assms(3)] assms(2)]
  show ?thesis by (simp split: prod.split)
qed

text \<open>
  A 256-byte write to the file endpoint passes the length check but its last byte is
  dropped: what is added is the 255-byte prefix, and the answer reports all 256 bytes written.
\<close>

lemma file_add_truncates_256:
  assumes "capable_mac_admin env" and "ctl_kmalloc env"
    and "length p = 256" and "plain_text (take 255 p)"
  shows "aectl_write env Files_add p 256 s =
    (case aegis_protected_file_add (ctl_file env) (Some (take 255 p)) s of
       None \<Rightarrow> None
     | Some (r, t) \<Rightarrow> Some (if r = ret0 then Inr 256 else r, t))"
proof -
  have auth: "aectl_authorized env" using assms(1) by (simp add: aectl_authorized_def)
  have "\<exists>buf. aectl_get_string p 256 (ctl_junk env) AEGIS_PATH_LEN = (Inr 255, buf) \<and>
      cstr buf = take 255 p"
    by (cases rule: get_string_cases [where ubuf = p and len = 256 and maxlen = AEGIS_PATH_LEN
          and out = "ctl_junk env"])
      (use assms(3,4) rstrip_id [of "take 255 p"] in
        \<open>simp_all add: AEGIS_PATH_LEN_def plain_text_def\<close>)
  then obtain buf where g: "aectl_get_string p 256 (ctl_junk env) AEGIS_PATH_LEN = (Inr 255, buf)"
    and b: "cstr buf = take 255 p" by blast
  have c: "cstr buf = cstr (take 255 p)" using b assms(4) by (simp add: plain_text_def cstr_id)
  show ?thesis
    unfolding aectl_write.simps aectl_files_add_write_def aectl_write_op_def g
    using auth assms(2) by (simp add: AEGIS_PATH_LEN_def file_ops_cstr(1) [OF c])
qed

text \<open>
  The process endpoints cut names at 15 bytes without a separator: a longer name whose
  sixteenth byte starts a decimal number is taken as its first 15 bytes with that number as
  pid, so protecting the program \<open>c42\<close> of a 15-byte \<open>c\<close> protects pid 42 instead.
\<close>

lemma proc_add_splits_long_name:
  assumes "capable_mac_admin env" and "comm_word c" and "length c = 15"
    and "0 \<le> pid" and "int32 pid"
  shows "aectl_write env Procs_add (c @ fmt_d pid) (length (c @ fmt_d pid)) s =
    (case aegis_protect_process_add (ctl_entry_kmalloc env) (Some c) pid s of
       (r, t) \<Rightarrow> Some (if r = ret0 then Inr (length (c @ fmt_d pid)) else r, t))"
proof -
  have auth: "aectl_authorized env" using assms(1) by (simp add: aectl_authorized_def)
  have ns: "\<forall>x\<in>set (c @ fmt_d pid). \<not> isspace x \<and> x \<noteq> NUL"
    using assms(2) fmt_d_no_space_NUL [of pid] by (auto simp: comm_word_def)
  then have plain: "plain_text (c @ fmt_d pid)" by (intro plain_no_space) auto
  have 1: "cstr (c @ fmt_d pid) = c @ fmt_d pid" using ns by (intro cstr_id) auto
  have 2: "skip_spaces (c @ fmt_d pid) = c @ fmt_d pid"
    using skip_spaces_head [of "c @ fmt_d pid" "[]"] ns by simp
  have 3: "takeWhile (\<lambda>x. \<not> isspace x) (c @ fmt_d pid) = c @ fmt_d pid"
    using ns by (simp add: takeWhile_eq_all_conv)
  have 4: "skip_spaces (fmt_d pid) = fmt_d pid"
    using skip_spaces_head [OF fmt_d_nonempty, of pid "[]"] ns by simp
  have sc: "sscanf_15s_d (c @ fmt_d pid) (ctl_junk env) 0 = (Suc 1, c, pid)"
    unfolding sscanf_15s_d_def Let_def 1 2 3
    using assms(3,5) 4 by (simp add: scan_d_fmt_d to_int32_id)
  have "length ((c @ fmt_d pid) @ []) < AEGIS_PATH_LEN"
    using assms(3) length_fmt_d [OF assms(4,5)] by (simp add: AEGIS_PATH_LEN_def)
  from procs_write_text(1) [OF auth plain disjI1 [OF refl] this sc] show ?thesis
    by (simp split: prod.split)
qed

text \<open>What a write of \<open>n\<close> bytes answers for the operation it asked for.\<close>

definition reported :: "nat \<Rightarrow> (errno + nat) \<times> aegis_state \<Rightarrow> (errno + nat) \<times> aegis_state" where
  "reported n x = (if fst x = ret0 then Inr n else fst x, snd x)"

text \<open>
  C32: The endpoints understand what they are documented to take, with or without a final line
  feed. For a privileged caller a path adds or removes exactly that path; a name of up to 15
  bytes means the name with pid 0 and a name and a decimal pid mean that pair; a decimal number
  means that system call, for every non-negative \<open>int\<close>. A success reports the whole write
  consumed, an error of the operation is passed on.
\<close>

theorem endpoints_take_text:
  assumes "capable_mac_admin env" and "ctl_kmalloc env" and "nl = [] \<or> nl = [LF]"
  shows "(plain_text p \<and> length p < AEGIS_PATH_LEN \<longrightarrow>
      aectl_write env Files_add (p @ nl) (length (p @ nl)) s =
        map_option (reported (length (p @ nl))) (aegis_protected_file_add (ctl_file env) (Some p) s) \<and>
      aectl_write env Files_del (p @ nl) (length (p @ nl)) s =
        Some (reported (length (p @ nl)) (aegis_protected_file_del (Some p) s))) \<and>
    (comm_word c \<and> int32 pid \<and> (x, i) \<in> {(c, 0), (c @ '' '' @ fmt_d pid, pid)} \<longrightarrow>
      aectl_write env Procs_add (x @ nl) (length (x @ nl)) s =
        Some (reported (length (x @ nl)) (aegis_protect_process_add (ctl_entry_kmalloc env) (Some c) i s)) \<and>
      aectl_write env Procs_del (x @ nl) (length (x @ nl)) s =
        Some (reported (length (x @ nl)) (aegis_protect_process_del (Some c) i s))) \<and>
    (0 \<le> nr \<and> int32 nr \<longrightarrow>
      aectl_write env Syscalls_add (fmt_d nr @ nl) (length (fmt_d nr @ nl)) s =
        Some (reported (length (fmt_d nr @ nl)) (aegis_syscall_block_add (ctl_entry_kmalloc env) nr s)) \<and>
      aectl_write env Syscalls_del (fmt_d nr @ nl) (length (fmt_d nr @ nl)) s =
        Some (reported (length (fmt_d nr @ nl)) (aegis_syscall_block_del nr s)))"
  using file_endpoints_take_paths [OF assms(1,2) _ _ assms(3), of p s]
    proc_endpoints_take_names [OF assms(1) _ _ assms(3), of c pid x i s]
    syscall_endpoints_take_numbers [OF assms(1) _ _ assms(3), of nr s]
  unfolding reported_def
  by (simp add: case_prod_beta split: option.split del: aectl_write.simps length_append)

theorem endpoints_take_text_witness:
  "capable_mac_admin (demo_ctl True) \<and> plain_text ''/etc/shadow'' \<and> comm_word ''sshd'' \<and> int32 42 \<and>
   aectl_write (demo_ctl True) Files_del (''/etc/shadow'' @ [LF]) (length (''/etc/shadow'' @ [LF])) aegis_statics =
     Some (Inl ENOENT, aegis_statics) \<and>
   aectl_write (demo_ctl True) Procs_del ((''sshd'' @ '' '' @ fmt_d 42) @ [LF])
     (length ((''sshd'' @ '' '' @ fmt_d 42) @ [LF])) aegis_statics = Some (Inl ENOENT, aegis_statics) \<and>
   aectl_write (demo_ctl True) Syscalls_del (fmt_d 246 @ [LF]) (length (fmt_d 246 @ [LF])) aegis_statics =
     Some (Inl ENOENT, aegis_statics)"
proof -
  have h: "capable_mac_admin (demo_ctl True)" "ctl_kmalloc (demo_ctl True)" "comm_word ''sshd''" "int32 42" "int32 246"
    "length ''/etc/shadow'' < AEGIS_PATH_LEN"
    by (simp_all add: demo_ctl_def comm_word_def isspace_def int32_def AEGIS_PATH_LEN_def)
  have none: "reported n (aegis_protected_file_del (Some p) aegis_statics) = (Inl ENOENT, aegis_statics)"
    "reported n (aegis_protect_process_del (Some c) i aegis_statics) = (Inl ENOENT, aegis_statics)"
    "reported n (aegis_syscall_block_del nr aegis_statics) = (Inl ENOENT, aegis_statics)" for n p c i nr
    by (simp_all add: reported_def aegis_protected_file_del_def aegis_protect_process_del_def aegis_syscall_block_del_def)
  show ?thesis
    using endpoints_take_text [OF h(1,2) disjI2 [OF refl], of "''/etc/shadow''" aegis_statics "''sshd''" 42
        "''sshd'' @ '' '' @ fmt_d 42" 42 246, unfolded none] plain_shadow h
    by (simp del: aectl_write.simps length_append append_Cons)
qed

end
