(* ===== verification/Aegis_Sysctl.thy ===== *)
theory Aegis_Sysctl
  imports Aegis_State
begin

text \<open>
  The sysctl interface, \<^verbatim>\<open>aegis/aegis_sysctl.c\<close>. Each knob has an integer mirror that
  \<open>proc_dointvec\<close> reads and writes, and a handler that commits the mirror into the
  \<open>aegis_cfg\<close> field the hooks consult. \<open>proc_dointvec\<close> is a parameter: from the
  direction, the user's text and the mirror's value it gives a return code and the mirror's
  new value. The locale \<open>mirrored_knob\<close> is the contract of one handler, interpreted for
  each of the seven.
\<close>

section \<open>Handlers\<close>

type_synonym dointvec = "bool \<Rightarrow> string \<Rightarrow> int \<Rightarrow> cret \<times> int"

definition aegis_proc_enable ::
    "dointvec \<Rightarrow> bool \<Rightarrow> string \<Rightarrow> aegis_state \<Rightarrow> cret \<times> aegis_state" where
  "aegis_proc_enable proc_dointvec wr buffer s =
     (let (ret, v) = proc_dointvec wr buffer (aegis_enabled s);
          s1 = s\<lparr>aegis_enabled := v\<rparr>
      in if wr \<and> ret = ret0
         then let s2 = s1\<lparr>aegis_cfg := (aegis_cfg s1)\<lparr>enabled := (aegis_enabled s1 \<noteq> 0)\<rparr>\<rparr>
              in (ret, AEGIS_INFO (''AEGIS '' @
                   (if enabled (aegis_cfg s2) then ''ENABLED'' else ''DISABLED'')) s2)
         else (ret, s1))"

definition aegis_proc_features ::
    "dointvec \<Rightarrow> bool \<Rightarrow> string \<Rightarrow> aegis_state \<Rightarrow> cret \<times> aegis_state" where
  "aegis_proc_features proc_dointvec wr buffer s =
     (let (ret, v) = proc_dointvec wr buffer (aegis_features_val s);
          s1 = s\<lparr>aegis_features_val := v\<rparr>
      in if wr \<and> ret = ret0
         then let s2 = s1\<lparr>aegis_cfg := (aegis_cfg s1)\<lparr>features := word_of_int (aegis_features_val s1)\<rparr>\<rparr>
              in (ret, AEGIS_INFO (''Features updated: 0x'' @ fmt_08x (features (aegis_cfg s2))) s2)
         else (ret, s1))"

text \<open>
  The handler generator: the mirror is given by its selector and update, the configuration
  field by its update, as the macro's token pasting names them.
\<close>

definition AEGIS_BOOL_HANDLER ::
    "(aegis_state \<Rightarrow> int) \<Rightarrow> ((int \<Rightarrow> int) \<Rightarrow> aegis_state \<Rightarrow> aegis_state) \<Rightarrow>
     ((bool \<Rightarrow> bool) \<Rightarrow> aegis_config \<Rightarrow> aegis_config) \<Rightarrow> string \<Rightarrow>
     dointvec \<Rightarrow> bool \<Rightarrow> string \<Rightarrow> aegis_state \<Rightarrow> cret \<times> aegis_state" where
  "AEGIS_BOOL_HANDLER mirror mirror_upd field_upd desc proc_dointvec wr buffer s =
     (let (ret, v) = proc_dointvec wr buffer (mirror s);
          s1 = mirror_upd (\<lambda>_. v) s
      in if wr \<and> ret = ret0
         then (ret, AEGIS_INFO (desc @ '': '' @ (if mirror s1 \<noteq> 0 then ''ON'' else ''OFF''))
                (s1\<lparr>aegis_cfg := field_upd (\<lambda>_. mirror s1 \<noteq> 0) (aegis_cfg s1)\<rparr>))
         else (ret, s1))"

definition aegis_proc_ptrace_restrict_all ::
    "dointvec \<Rightarrow> bool \<Rightarrow> string \<Rightarrow> aegis_state \<Rightarrow> cret \<times> aegis_state" where
  "aegis_proc_ptrace_restrict_all =
     AEGIS_BOOL_HANDLER aegis_ptrace_restrict_all aegis_ptrace_restrict_all_update
       ptrace_restrict_all_update ''Ptrace restriction (all processes)''"

definition aegis_proc_file_integrity_enforce ::
    "dointvec \<Rightarrow> bool \<Rightarrow> string \<Rightarrow> aegis_state \<Rightarrow> cret \<times> aegis_state" where
  "aegis_proc_file_integrity_enforce =
     AEGIS_BOOL_HANDLER aegis_file_integrity_enforce aegis_file_integrity_enforce_update
       file_integrity_enforce_update ''File integrity enforcement''"

definition aegis_proc_file_integrity_log ::
    "dointvec \<Rightarrow> bool \<Rightarrow> string \<Rightarrow> aegis_state \<Rightarrow> cret \<times> aegis_state" where
  "aegis_proc_file_integrity_log =
     AEGIS_BOOL_HANDLER aegis_file_integrity_log aegis_file_integrity_log_update
       file_integrity_log_update ''File integrity logging''"

definition aegis_proc_module_loading_denied ::
    "dointvec \<Rightarrow> bool \<Rightarrow> string \<Rightarrow> aegis_state \<Rightarrow> cret \<times> aegis_state" where
  "aegis_proc_module_loading_denied =
     AEGIS_BOOL_HANDLER aegis_module_loading_denied aegis_module_loading_denied_update
       module_loading_denied_update ''Module/kexec loading denial''"

definition aegis_proc_syscall_audit_enable ::
    "dointvec \<Rightarrow> bool \<Rightarrow> string \<Rightarrow> aegis_state \<Rightarrow> cret \<times> aegis_state" where
  "aegis_proc_syscall_audit_enable =
     AEGIS_BOOL_HANDLER aegis_syscall_audit_enable aegis_syscall_audit_enable_update
       syscall_audit_enable_update ''Syscall auditing''"


section \<open>The sysctl table and its registration\<close>

datatype knob =
    K_enabled | K_features | K_ptrace_restrict_all | K_file_integrity_enforce
  | K_file_integrity_log | K_module_loading_denied | K_syscall_audit_enable

definition aegis_sysctl_table :: "(string \<times> knob) list" where
  "aegis_sysctl_table =
     [(''enabled'', K_enabled), (''features'', K_features),
      (''ptrace_restrict_all'', K_ptrace_restrict_all),
      (''file_integrity_enforce'', K_file_integrity_enforce),
      (''file_integrity_log'', K_file_integrity_log),
      (''module_loading_denied'', K_module_loading_denied),
      (''syscall_audit_enable'', K_syscall_audit_enable)]"

fun knob_handler :: "knob \<Rightarrow> dointvec \<Rightarrow> bool \<Rightarrow> string \<Rightarrow> aegis_state \<Rightarrow> cret \<times> aegis_state" where
  "knob_handler K_enabled = aegis_proc_enable"
| "knob_handler K_features = aegis_proc_features"
| "knob_handler K_ptrace_restrict_all = aegis_proc_ptrace_restrict_all"
| "knob_handler K_file_integrity_enforce = aegis_proc_file_integrity_enforce"
| "knob_handler K_file_integrity_log = aegis_proc_file_integrity_log"
| "knob_handler K_module_loading_denied = aegis_proc_module_loading_denied"
| "knob_handler K_syscall_audit_enable = aegis_proc_syscall_audit_enable"

definition aegis_sysctl_init :: "bool \<Rightarrow> aegis_state \<Rightarrow> cret \<times> aegis_state" where
  "aegis_sysctl_init register_sysctl s =
     (let s1 = s\<lparr>aegis_sysctl_header := register_sysctl\<rparr> in
      if \<not> aegis_sysctl_header s1
      then (Inl ENOMEM, AEGIS_ERR ''Failed to register sysctl interface'' s1)
      else (ret0, AEGIS_INFO ''Sysctl interface created at /proc/sys/kernel/aegis/'' s1))"

text \<open>The table stays registered in the header variable; the call to unregister it is the result.\<close>

definition aegis_sysctl_exit :: "aegis_state \<Rightarrow> bool" where
  "aegis_sysctl_exit s = aegis_sysctl_header s"

lemmas sysctl_defs [aegis_defs] =
  aegis_proc_enable_def aegis_proc_features_def AEGIS_BOOL_HANDLER_def
  aegis_proc_ptrace_restrict_all_def aegis_proc_file_integrity_enforce_def
  aegis_proc_file_integrity_log_def aegis_proc_module_loading_denied_def
  aegis_proc_syscall_audit_enable_def


section \<open>The contract of a knob\<close>

text \<open>
  What is relied on of \<open>proc_dointvec\<close>: a read does not change the integer, and neither
  does a write that fails.
\<close>

definition dointvec_laws :: "dointvec \<Rightarrow> bool" where
  "dointvec_laws dv \<longleftrightarrow>
     (\<forall>buf v. snd (dv False buf v) = v) \<and>
     (\<forall>buf v. fst (dv True buf v) \<noteq> ret0 \<longrightarrow> snd (dv True buf v) = v)"

locale mirrored_knob =
  fixes handler :: "dointvec \<Rightarrow> bool \<Rightarrow> string \<Rightarrow> aegis_state \<Rightarrow> cret \<times> aegis_state"
    and mirror :: "aegis_state \<Rightarrow> int"
    and field :: "aegis_state \<Rightarrow> 'v"
    and conv :: "int \<Rightarrow> 'v"
  assumes result: "fst (handler dv wr buf s) = fst (dv wr buf (mirror s))"
    and mirror_set: "mirror (snd (handler dv wr buf s)) = snd (dv wr buf (mirror s))"
    and committed: "wr \<Longrightarrow> fst (dv wr buf (mirror s)) = ret0 \<Longrightarrow>
      field (snd (handler dv wr buf s)) = conv (snd (dv wr buf (mirror s)))"
    and untouched: "\<not> (wr \<and> fst (dv wr buf (mirror s)) = ret0) \<Longrightarrow>
      field (snd (handler dv wr buf s)) = field s"
begin

text \<open>A knob that shows what the hooks see still does after any access.\<close>

lemma keeps_sync:
  assumes "dointvec_laws dv" "field s = conv (mirror s)"
  shows "field (snd (handler dv wr buf s)) = conv (mirror (snd (handler dv wr buf s)))"
proof (cases "wr \<and> fst (dv wr buf (mirror s)) = ret0")
  case True
  then have "wr" "fst (dv wr buf (mirror s)) = ret0" by blast+
  then have "field (snd (handler dv wr buf s)) = conv (snd (dv wr buf (mirror s)))"
    by (rule committed)
  then show ?thesis by (simp only: mirror_set)
next
  case False
  then have "snd (dv wr buf (mirror s)) = mirror s"
    using assms(1) by (cases wr) (auto simp: dointvec_laws_def)
  with False assms(2) show ?thesis using untouched mirror_set by simp
qed

end

interpretation k_enabled: mirrored_knob aegis_proc_enable aegis_enabled
  "\<lambda>s. enabled (aegis_cfg s)" "\<lambda>v. v \<noteq> 0"
  by unfold_locales (auto simp: sysctl_defs Let_def aegis_log_defs case_prod_beta)

interpretation k_features: mirrored_knob aegis_proc_features aegis_features_val
  "\<lambda>s. features (aegis_cfg s)" word_of_int
  by unfold_locales (auto simp: sysctl_defs Let_def aegis_log_defs case_prod_beta)

interpretation k_ptrace: mirrored_knob aegis_proc_ptrace_restrict_all aegis_ptrace_restrict_all
  "\<lambda>s. ptrace_restrict_all (aegis_cfg s)" "\<lambda>v. v \<noteq> 0"
  by unfold_locales (auto simp: sysctl_defs Let_def aegis_log_defs case_prod_beta)

interpretation k_enforce: mirrored_knob aegis_proc_file_integrity_enforce
  aegis_file_integrity_enforce "\<lambda>s. file_integrity_enforce (aegis_cfg s)" "\<lambda>v. v \<noteq> 0"
  by unfold_locales (auto simp: sysctl_defs Let_def aegis_log_defs case_prod_beta)

interpretation k_log: mirrored_knob aegis_proc_file_integrity_log
  aegis_file_integrity_log "\<lambda>s. file_integrity_log (aegis_cfg s)" "\<lambda>v. v \<noteq> 0"
  by unfold_locales (auto simp: sysctl_defs Let_def aegis_log_defs case_prod_beta)

interpretation k_module: mirrored_knob aegis_proc_module_loading_denied
  aegis_module_loading_denied "\<lambda>s. module_loading_denied (aegis_cfg s)" "\<lambda>v. v \<noteq> 0"
  by unfold_locales (auto simp: sysctl_defs Let_def aegis_log_defs case_prod_beta)

interpretation k_audit: mirrored_knob aegis_proc_syscall_audit_enable
  aegis_syscall_audit_enable "\<lambda>s. syscall_audit_enable (aegis_cfg s)" "\<lambda>v. v \<noteq> 0"
  by unfold_locales (auto simp: sysctl_defs Let_def aegis_log_defs case_prod_beta)


section \<open>The mirrors and the configuration agree\<close>

definition sysctl_sync :: "aegis_state \<Rightarrow> bool" where
  "sysctl_sync s \<longleftrightarrow>
     enabled (aegis_cfg s) = (aegis_enabled s \<noteq> 0) \<and>
     features (aegis_cfg s) = word_of_int (aegis_features_val s) \<and>
     ptrace_restrict_all (aegis_cfg s) = (aegis_ptrace_restrict_all s \<noteq> 0) \<and>
     file_integrity_enforce (aegis_cfg s) = (aegis_file_integrity_enforce s \<noteq> 0) \<and>
     file_integrity_log (aegis_cfg s) = (aegis_file_integrity_log s \<noteq> 0) \<and>
     module_loading_denied (aegis_cfg s) = (aegis_module_loading_denied s \<noteq> 0) \<and>
     syscall_audit_enable (aegis_cfg s) = (aegis_syscall_audit_enable s \<noteq> 0)"

text \<open>A handler works on its own mirror and field: the lists and the other knobs stay.\<close>

lemma knob_lists [frame, simp]: "lists_of (snd (knob_handler k dv wr buf s)) = lists_of s"
  by (cases k) (auto simp: sysctl_defs Let_def case_prod_beta lists_of_def aegis_log_defs)

lemma sysctl_sync_step:
  assumes "dointvec_laws dv" "sysctl_sync s"
  shows "sysctl_sync (snd (knob_handler k dv wr buf s))"
proof -
  have off: "snd (dv False buf v) = v" for v
    using assms(1) by (simp add: dointvec_laws_def)
  have fail: "fst (dv True buf v) \<noteq> ret0 \<Longrightarrow> snd (dv True buf v) = v" for v
    using assms(1) by (simp add: dointvec_laws_def)
  show ?thesis
    using assms(2) off fail
    by (cases k; cases wr)
      (auto simp: sysctl_sync_def sysctl_defs Let_def case_prod_beta aegis_log_defs)
qed

lemma sysctl_sync_statics: "sysctl_sync aegis_statics"
  by (simp add: sysctl_sync_def aegis_statics_def aegis_cfg_init_def)

section \<open>The effect of one access\<close>

fun knob_mirror :: "knob \<Rightarrow> aegis_state \<Rightarrow> int" where
  "knob_mirror K_enabled s = aegis_enabled s"
| "knob_mirror K_features s = aegis_features_val s"
| "knob_mirror K_ptrace_restrict_all s = aegis_ptrace_restrict_all s"
| "knob_mirror K_file_integrity_enforce s = aegis_file_integrity_enforce s"
| "knob_mirror K_file_integrity_log s = aegis_file_integrity_log s"
| "knob_mirror K_module_loading_denied s = aegis_module_loading_denied s"
| "knob_mirror K_syscall_audit_enable s = aegis_syscall_audit_enable s"

fun knob_set :: "knob \<Rightarrow> int \<Rightarrow> aegis_config \<Rightarrow> aegis_config" where
  "knob_set K_enabled v c = c\<lparr>enabled := (v \<noteq> 0)\<rparr>"
| "knob_set K_features v c = c\<lparr>features := word_of_int v\<rparr>"
| "knob_set K_ptrace_restrict_all v c = c\<lparr>ptrace_restrict_all := (v \<noteq> 0)\<rparr>"
| "knob_set K_file_integrity_enforce v c = c\<lparr>file_integrity_enforce := (v \<noteq> 0)\<rparr>"
| "knob_set K_file_integrity_log v c = c\<lparr>file_integrity_log := (v \<noteq> 0)\<rparr>"
| "knob_set K_module_loading_denied v c = c\<lparr>module_loading_denied := (v \<noteq> 0)\<rparr>"
| "knob_set K_syscall_audit_enable v c = c\<lparr>syscall_audit_enable := (v \<noteq> 0)\<rparr>"

lemma knob_effect:
  "fst (knob_handler k dv wr buf s) = fst (dv wr buf (knob_mirror k s)) \<and>
   aegis_cfg (snd (knob_handler k dv wr buf s)) =
     (if wr \<and> fst (dv wr buf (knob_mirror k s)) = ret0
      then knob_set k (snd (dv wr buf (knob_mirror k s))) (aegis_cfg s) else aegis_cfg s)"
  by (cases k) (auto simp: sysctl_defs Let_def case_prod_beta aegis_log_defs)

text \<open>A concrete \<open>proc_dointvec\<close>: one decimal number.\<close>

definition demo_dointvec :: dointvec where
  "demo_dointvec wr buf v =
     (if wr then (case kstrtoint buf of Inl e \<Rightarrow> (Inl EINVAL, v) | Inr n \<Rightarrow> (ret0, n)) else (ret0, v))"

lemma demo_dointvec_laws: "dointvec_laws demo_dointvec"
  by (simp add: dointvec_laws_def demo_dointvec_def split: sum.split)

lemma demo_dointvec_01:
  "demo_dointvec True ''0'' v = (ret0, 0)" "demo_dointvec True ''1'' v = (ret0, 1)"
  by (simp_all add: demo_dointvec_def kstrtoint_def kstrtoull_def cstr_Cons isdigit_def
      digit_val_def int32_def)

section \<open>Properties\<close>

text \<open>
  The knobs are not decorative. Whatever is read from or written to a knob, successfully
  or not, what it shows afterwards is what the hooks consult, for all seven knobs, if it was so
  before; and it is so initially. The policy lists are untouched.
\<close>

lemma sysctl_mirrors_agree:
  assumes "dointvec_laws dv" and "sysctl_sync s"
  shows "sysctl_sync (snd (knob_handler k dv wr buf s)) \<and>
    lists_of (snd (knob_handler k dv wr buf s)) = lists_of s \<and> sysctl_sync aegis_statics"
  using sysctl_sync_step [OF assms] sysctl_sync_statics by simp

end
