(* ===== verification/Aegis_Boot.thy ===== *)
theory Aegis_Boot
  imports Aegis_Verdicts Aegis_Endpoints Aegis_Sysctl
begin

unbundle bit_operations_syntax

text \<open>
  Bringing the module up: \<^verbatim>\<open>aegis/aegis_module.c\<close> and the initialisation function of
  \<^verbatim>\<open>aegis/aegis_lsm.c\<close>. The hooks are registered before any subsystem is set up; the
  result of the function therefore comes with the list of hooks that are live. What memory
  and the sysctl layer give is a boot environment.
\<close>

section \<open>Initialisation\<close>

definition aegis_module_init :: "aegis_state \<Rightarrow> cret \<times> aegis_state" where
  "aegis_module_init s = (ret0, s)"

definition aegis_module_exit :: "aegis_state \<Rightarrow> aegis_state" where
  "aegis_module_exit s = s"

text \<open>The registered table, by hook name.\<close>

definition aegis_hook_names :: "string list" where
  "aegis_hook_names =
     [''task_alloc'', ''task_free'', ''ptrace_access_check'', ''ptrace_traceme'',
      ''file_permission'', ''file_open'', ''kernel_read_file'', ''kernel_load_data'',
      ''bprm_check_security'', ''socket_create'', ''inode_permission'']"

record boot_env =
  boot_proc_kmallocs :: "bool \<times> bool \<times> bool"
  boot_audit_kmallocs :: "bool \<times> bool \<times> bool \<times> bool \<times> bool"
  boot_register_sysctl :: bool

definition aegis_init :: "boot_env \<Rightarrow> aegis_state \<Rightarrow> cret \<times> string list \<times> aegis_state" where
  "aegis_init env s =
     (let s = AEGIS_INFO (replicate 46 (CHR ''='')) s;
          s = AEGIS_INFO (''  AEGIS v'' @ AEGIS_VERSION @ '' - Advanced Guardian for'') s;
          s = AEGIS_INFO ''  Integrated System Security'' s;
          s = AEGIS_INFO (replicate 46 (CHR ''='')) s;
          s = AEGIS_INFO ''Initializing subsystems...'' s;
          hooks = aegis_hook_names
      in case aegis_process_init (boot_proc_kmallocs env) s of (ret, s) \<Rightarrow>
         if ret \<noteq> ret0
         then (ret, hooks, AEGIS_ERR (''Failed to initialize process protection: '' @ fmt_d (cret_code ret)) s)
         else let s = AEGIS_INFO ''  [+] Process protection: active'' s in
         case aegis_file_init s of (ret, s) \<Rightarrow>
         if ret \<noteq> ret0
         then (ret, hooks, AEGIS_ERR (''Failed to initialize file integrity: '' @ fmt_d (cret_code ret)) s)
         else let s = AEGIS_INFO ''  [+] File integrity: active'' s in
         case aegis_audit_init (boot_audit_kmallocs env) s of (ret, s) \<Rightarrow>
         if ret \<noteq> ret0
         then (ret, hooks, AEGIS_ERR (''Failed to initialize syscall audit: '' @ fmt_d (cret_code ret)) s)
         else let s = AEGIS_INFO ''  [+] Syscall audit: active'' s in
         case aegis_module_init s of (ret, s) \<Rightarrow>
         if ret \<noteq> ret0
         then (ret, hooks, AEGIS_ERR (''Failed to initialize module control: '' @ fmt_d (cret_code ret)) s)
         else let s = AEGIS_INFO ''  [+] Module control: active'' s in
         case aegis_sysctl_init (boot_register_sysctl env) s of (ret, s) \<Rightarrow>
         if ret \<noteq> ret0
         then (ret, hooks, AEGIS_ERR (''Failed to initialize sysctl: '' @ fmt_d (cret_code ret)) s)
         else
           let s = AEGIS_INFO ''  [+] Sysctl interface: active'' s;
               s = AEGIS_INFO (replicate 46 (CHR ''='')) s;
               s = AEGIS_INFO ''  AEGIS is ACTIVE - Shield is UP'' s;
               s = AEGIS_INFO (''  Features: 0x'' @ fmt_08x (features (aegis_cfg s))) s;
               s = AEGIS_INFO (replicate 46 (CHR ''='')) s
           in (ret0, hooks, s))"

text \<open>The memory of the module after initialisation from its static state.\<close>

definition boot_state :: "boot_env \<Rightarrow> aegis_state" where
  "boot_state env = snd (snd (aegis_init env aegis_statics))"


section \<open>What initialisation does\<close>

text \<open>The sysctl mirrors, which only the sysctl handlers change.\<close>

definition mirrors_of where
  "mirrors_of s =
     (aegis_enabled s, aegis_features_val s, aegis_ptrace_restrict_all s,
      aegis_file_integrity_enforce s, aegis_file_integrity_log s, aegis_module_loading_denied s,
      aegis_syscall_audit_enable s)"

lemma sync_by_mirrors:
  "mirrors_of t = mirrors_of s \<Longrightarrow> cfg_policy (aegis_cfg t) = cfg_policy (aegis_cfg s) \<Longrightarrow>
   sysctl_sync t = sysctl_sync s"
proof -
  assume m: "mirrors_of t = mirrors_of s" and c: "cfg_policy (aegis_cfg t) = cfg_policy (aegis_cfg s)"
  from c have "\<And>f. f (cfg_policy (aegis_cfg t)) = f (cfg_policy (aegis_cfg s))" by simp
  from this [of enabled] this [of features] this [of ptrace_restrict_all]
    this [of file_integrity_enforce] this [of file_integrity_log] this [of module_loading_denied]
    this [of syscall_audit_enable] m
  show ?thesis by (simp add: sysctl_sync_def mirrors_of_def cfg_policy_def)
qed

lemma mirrors_log [simp]:
  "mirrors_of (AEGIS_INFO m s) = mirrors_of s" "mirrors_of (AEGIS_ERR m s) = mirrors_of s"
  by (simp_all add: mirrors_of_def aegis_log_defs)

lemma mirrors_ops [simp]:
  "mirrors_of (snd (aegis_protect_process_add km c p s)) = mirrors_of s"
  "mirrors_of (snd (aegis_protect_process_del c p s)) = mirrors_of s"
  "mirrors_of (snd (aegis_syscall_block_add km nr s)) = mirrors_of s"
  "mirrors_of (snd (aegis_syscall_block_del nr s)) = mirrors_of s"
  "mirrors_of (snd (aegis_protected_file_del f s)) = mirrors_of s"
  by (auto simp: mirrors_of_def proc_defs file_defs syscall_defs aegis_log_defs
      split: option.splits sum.splits)

lemma mirrors_file_add:
  "aegis_protected_file_add fe f s = Some (r, t) \<Longrightarrow> mirrors_of t = mirrors_of s"
  by (auto simp: mirrors_of_def aegis_protected_file_add_def file_add_commit_def aegis_log_defs
      split: option.splits sum.splits if_splits)

lemma sync_log [simp]:
  "sysctl_sync (AEGIS_INFO m s) = sysctl_sync s" "sysctl_sync (AEGIS_ERR m s) = sysctl_sync s"
  by (rule sync_by_mirrors; simp)+

lemma wf_log [simp]:
  "lists_wf (AEGIS_INFO m s) = lists_wf s" "lists_wf (AEGIS_ERR m s) = lists_wf s"
  by (simp_all add: lists_wf_def procs_wf_def files_wf_def syscalls_wf_def aegis_log_defs)

text \<open>The default entries.\<close>

definition default_procs :: "(string \<times> int) set" where
  "default_procs = {(''sshd'', 0), (''init'', 1), (''systemd'', 1)}"

definition default_syscalls :: "int set" where
  "default_syscalls =
     {NR_kexec_load, NR_kexec_file_load, NR_init_module, NR_finit_module, NR_delete_module}"

lemma bset_insert_True:
  "card ks < cap \<Longrightarrow> k \<notin> ks \<Longrightarrow> bset_insert True cap k ks = (ret0, insert k ks)"
  by (simp add: bset_insert_def bset_add_def)

lemma add_proc_keys:
  assumes "procs_wf s" "length (cstr c) < AEGIS_COMM_LEN" "card (proc_keys s) < 64"
    "(cstr c, p) \<notin> proc_keys s"
  shows "proc_keys (snd (aegis_protect_process_add True (Some c) p s)) = insert (cstr c, p) (proc_keys s)"
proof -
  obtain r t where rt: "aegis_protect_process_add True (Some c) p s = (r, t)" by fastforce
  from process_add_refines [OF assms(1,2) rt] assms(3,4) rt show ?thesis
    by (simp add: bset_insert_True AEGIS_MAX_PROTECTED_PROCS_def)
qed

lemma add_syscall_set:
  assumes "syscalls_wf s" "0 \<le> nr" "card (blocked_set s) < 256" "nr \<notin> blocked_set s"
  shows "blocked_set (snd (aegis_syscall_block_add True nr s)) = insert nr (blocked_set s)"
proof -
  obtain r t where rt: "aegis_syscall_block_add True nr s = (r, t)" by fastforce
  from syscall_add_refines [OF assms(1,2) rt] assms(3,4) rt show ?thesis
    by (simp add: bset_insert_True AEGIS_MAX_BLOCKED_SYSCALLS_def)
qed

lemma short_names:
  "length (cstr ''sshd'') < AEGIS_COMM_LEN" "length (cstr ''init'') < AEGIS_COMM_LEN"
  "length (cstr ''systemd'') < AEGIS_COMM_LEN"
  by (simp_all add: cstr_Cons AEGIS_COMM_LEN_def)

lemma names_cstr: "cstr ''sshd'' = ''sshd''" "cstr ''init'' = ''init''" "cstr ''systemd'' = ''systemd''"
  by (simp_all add: cstr_Cons)

lemma process_init_result:
  assumes "protected_procs s = []"
  shows "fst (aegis_process_init k s) = ret0" "procs_wf (snd (aegis_process_init k s))"
    "k = (True, True, True) \<Longrightarrow> proc_keys (snd (aegis_process_init k s)) = default_procs"
proof -
  obtain k1 k2 k3 where k: "k = (k1, k2, k3)" by (cases k)
  let ?s0 = "s\<lparr>protected_proc_count := 0\<rparr>"
  let ?s1 = "\<lambda>k1. snd (aegis_protect_process_add k1 (Some ''sshd'') 0 ?s0)"
  let ?s2 = "\<lambda>k1 k2. snd (aegis_protect_process_add k2 (Some ''init'') 1 (?s1 k1))"
  have w0: "procs_wf ?s0" using assms by (simp add: procs_wf_def)
  have w1: "procs_wf (?s1 k1)" for k1 by (rule procs_wf_add [OF w0 short_names(1)])
  have w2: "procs_wf (?s2 k1 k2)" for k1 k2 by (rule procs_wf_add [OF w1 short_names(2)])
  show "fst (aegis_process_init k s) = ret0" by (simp add: aegis_process_init_def k Let_def)
  show "procs_wf (snd (aegis_process_init k s))"
    using procs_wf_add [OF w2 short_names(3)] by (simp add: aegis_process_init_def k Let_def)
  have n0: "proc_keys ?s0 = {}" using assms by (simp add: proc_keys_def)
  have n1: "proc_keys (?s1 True) = {(''sshd'', 0)}"
    using add_proc_keys [OF w0 short_names(1), of 0] n0 by (simp add: names_cstr)
  have n2: "proc_keys (?s2 True True) = {(''init'', 1), (''sshd'', 0)}"
    using add_proc_keys [OF w1 short_names(2), of True 1] n1 by (simp add: names_cstr)
  show "k = (True, True, True) \<Longrightarrow> proc_keys (snd (aegis_process_init k s)) = default_procs"
    using add_proc_keys [OF w2 short_names(3), of True True 1] n2
    by (simp add: aegis_process_init_def Let_def names_cstr default_procs_def insert_commute)
qed

lemma process_init_frame [simp]:
  "aegis_cfg (snd (aegis_process_init k s)) = aegis_cfg s"
  "mirrors_of (snd (aegis_process_init k s)) = mirrors_of s"
  "protected_files (snd (aegis_process_init k s)) = protected_files s"
  "blocked_syscalls (snd (aegis_process_init k s)) = blocked_syscalls s"
  by (simp_all add: aegis_process_init_def Let_def case_prod_beta mirrors_of_def [of "s\<lparr>protected_proc_count := 0\<rparr>"]) (simp add: mirrors_of_def)

lemma syscall_add_all_frame [simp]:
  "aegis_cfg (syscall_add_all l s) = aegis_cfg s"
  "mirrors_of (syscall_add_all l s) = mirrors_of s"
  "protected_procs (syscall_add_all l s) = protected_procs s"
  "protected_proc_count (syscall_add_all l s) = protected_proc_count s"
  "protected_files (syscall_add_all l s) = protected_files s"
  "protected_file_count (syscall_add_all l s) = protected_file_count s"
  by (induction l s rule: syscall_add_all.induct) simp_all

lemma syscall_add_all_wf: "syscalls_wf s \<Longrightarrow> syscalls_wf (syscall_add_all l s)"
  by (induction l s rule: syscall_add_all.induct) (simp_all add: syscalls_wf_add)

lemma syscall_add_all_set:
  "syscalls_wf s \<Longrightarrow> \<forall>nr\<in>set ns. 0 \<le> nr \<Longrightarrow> distinct ns \<Longrightarrow> set ns \<inter> blocked_set s = {} \<Longrightarrow>
   card (blocked_set s) + length ns \<le> 256 \<Longrightarrow>
   blocked_set (syscall_add_all (map (Pair True) ns) s) = set ns \<union> blocked_set s"
proof (induction ns arbitrary: s)
  case Nil
  then show ?case by simp
next
  case (Cons n ns)
  let ?t = "snd (aegis_syscall_block_add True n s)"
  have t: "blocked_set ?t = insert n (blocked_set s)"
    using Cons.prems by (intro add_syscall_set) auto
  have "card (blocked_set ?t) \<le> Suc (card (blocked_set s))"
    unfolding t by (rule card_insert_le_m1) auto
  then have "blocked_set (syscall_add_all (map (Pair True) ns) ?t) = set ns \<union> blocked_set ?t"
    using Cons.prems t syscalls_wf_add [OF Cons.prems(1), of True n] by (intro Cons.IH) auto
  then show ?case by (auto simp: t)
qed

lemma audit_init_result:
  assumes "blocked_syscalls s = []"
  shows "fst (aegis_audit_init k s) = ret0" "syscalls_wf (snd (aegis_audit_init k s))"
    "k = (True, True, True, True, True) \<Longrightarrow>
     blocked_set (snd (aegis_audit_init k s)) = default_syscalls"
proof -
  have w: "syscalls_wf (s\<lparr>blocked_syscall_count := 0\<rparr>)" using assms by (simp add: syscalls_wf_def)
  show "fst (aegis_audit_init k s) = ret0" by (simp add: aegis_audit_init_def case_prod_beta)
  show "syscalls_wf (snd (aegis_audit_init k s))"
    using syscall_add_all_wf [OF w]
    by (simp add: aegis_audit_init_def case_prod_beta del: syscall_add_all.simps)
  show "k = (True, True, True, True, True) \<Longrightarrow>
     blocked_set (snd (aegis_audit_init k s)) = default_syscalls"
    using syscall_add_all_set [OF w, of "[NR_kexec_load, NR_kexec_file_load, NR_init_module,
        NR_finit_module, NR_delete_module]"] assms
    by (simp add: aegis_audit_init_def default_syscalls_def blocked_set_def [of "s\<lparr>blocked_syscall_count := 0\<rparr>"] syscall_nrs)
qed

lemma audit_init_frame [simp]:
  "aegis_cfg (snd (aegis_audit_init k s)) = aegis_cfg s"
  "mirrors_of (snd (aegis_audit_init k s)) = mirrors_of s"
  "protected_procs (snd (aegis_audit_init k s)) = protected_procs s"
  "protected_proc_count (snd (aegis_audit_init k s)) = protected_proc_count s"
  "protected_files (snd (aegis_audit_init k s)) = protected_files s"
  "protected_file_count (snd (aegis_audit_init k s)) = protected_file_count s"
  by (simp_all add: aegis_audit_init_def case_prod_beta) (simp add: mirrors_of_def)


lemma log_more [simp]:
  "protected_procs (AEGIS_ERR m s) = protected_procs s"
  "protected_proc_count (AEGIS_ERR m s) = protected_proc_count s"
  "protected_files (AEGIS_ERR m s) = protected_files s"
  "protected_file_count (AEGIS_ERR m s) = protected_file_count s"
  "blocked_syscalls (AEGIS_ERR m s) = blocked_syscalls s"
  "blocked_syscall_count (AEGIS_ERR m s) = blocked_syscall_count s"
  by (simp_all add: aegis_log_defs)

lemma keys_log [simp]:
  "proc_keys (AEGIS_INFO m s) = proc_keys s" "proc_keys (AEGIS_ERR m s) = proc_keys s"
  "file_keys (AEGIS_INFO m s) = file_keys s" "file_keys (AEGIS_ERR m s) = file_keys s"
  "blocked_set (AEGIS_INFO m s) = blocked_set s" "blocked_set (AEGIS_ERR m s) = blocked_set s"
  by (simp_all add: proc_keys_def file_keys_def blocked_set_def)

text \<open>The state the subsystem initialisations build, before the sysctl table is registered.\<close>

definition subsystems :: "boot_env \<Rightarrow> aegis_state \<Rightarrow> aegis_state" where
  "subsystems env s =
     (let s = snd (aegis_process_init (boot_proc_kmallocs env) s);
          s = snd (aegis_file_init (AEGIS_INFO ''  [+] Process protection: active'' s));
          s = snd (aegis_audit_init (boot_audit_kmallocs env) (AEGIS_INFO ''  [+] File integrity: active'' s))
      in s)"

lemma sysctl_init_frame:
  "aegis_cfg (snd (aegis_sysctl_init r s)) = aegis_cfg s"
  "mirrors_of (snd (aegis_sysctl_init r s)) = mirrors_of s"
  "lists_of (snd (aegis_sysctl_init r s)) = lists_of s"
  "fst (aegis_sysctl_init r s) = (if r then ret0 else Inl ENOMEM)"
  by (simp_all add: aegis_sysctl_init_def Let_def) (simp add: mirrors_of_def, simp add: lists_of_def)

lemma same_lists:
  assumes "lists_of t = lists_of s"
  shows "lists_wf t = lists_wf s" "proc_keys t = proc_keys s" "file_keys t = file_keys s"
    "blocked_set t = blocked_set s"
  using assms wf_by_fields [of t s]
  by (simp_all add: lists_of_def lists_wf_def proc_keys_def file_keys_def blocked_set_def)

text \<open>
  Initialisation registers every hook, answers by the sysctl registration alone, and leaves the
  state of the subsystem initialisations up to log lines and the table header.
\<close>

definition boot_banner :: "aegis_state \<Rightarrow> aegis_state" where
  "boot_banner s =
     AEGIS_INFO ''Initializing subsystems...'' (AEGIS_INFO (replicate 46 (CHR ''=''))
       (AEGIS_INFO ''  Integrated System Security''
         (AEGIS_INFO (''  AEGIS v'' @ AEGIS_VERSION @ '' - Advanced Guardian for'')
           (AEGIS_INFO (replicate 46 (CHR ''='')) s))))"

lemma init_results [simp]:
  "fst (aegis_process_init k s) = ret0" "fst (aegis_file_init s) = ret0"
  "fst (aegis_audit_init l s) = ret0" "aegis_module_init s = (ret0, s)"
  by (simp_all add: aegis_process_init_def aegis_file_init_def aegis_audit_init_def
      aegis_module_init_def case_prod_beta Let_def)

lemma init_shape:
  "fst (aegis_init env s) = (if boot_register_sysctl env then ret0 else Inl ENOMEM)"
  "fst (snd (aegis_init env s)) = aegis_hook_names"
  "lists_of (snd (snd (aegis_init env s))) = lists_of (subsystems env (boot_banner s))"
  "aegis_cfg (snd (snd (aegis_init env s))) = aegis_cfg (subsystems env (boot_banner s))"
  "mirrors_of (snd (snd (aegis_init env s))) = mirrors_of (subsystems env (boot_banner s))"
  unfolding aegis_init_def Let_def boot_banner_def [symmetric]
  by (simp_all add: case_prod_beta sysctl_init_frame subsystems_def Let_def)

lemma file_init_frame [simp]:
  "aegis_cfg (snd (aegis_file_init s)) = aegis_cfg s"
  "mirrors_of (snd (aegis_file_init s)) = mirrors_of s"
  "protected_procs (snd (aegis_file_init s)) = protected_procs s"
  "protected_proc_count (snd (aegis_file_init s)) = protected_proc_count s"
  "protected_files (snd (aegis_file_init s)) = protected_files s"
  "protected_file_count (snd (aegis_file_init s)) = 0"
  "blocked_syscalls (snd (aegis_file_init s)) = blocked_syscalls s"
  by (simp_all add: aegis_file_init_def mirrors_of_def)

lemma banner_fields [simp]:
  "lists_of (boot_banner s) = lists_of s" "aegis_cfg (boot_banner s) = aegis_cfg s"
  "mirrors_of (boot_banner s) = mirrors_of s"
  "protected_procs (boot_banner s) = protected_procs s"
  "protected_files (boot_banner s) = protected_files s"
  "blocked_syscalls (boot_banner s) = blocked_syscalls s"
  by (simp_all add: boot_banner_def)

lemma subsystems_state:
  assumes "protected_procs s = []" "protected_files s = []" "blocked_syscalls s = []"
  shows "lists_wf (subsystems env s)" "aegis_cfg (subsystems env s) = aegis_cfg s"
    "mirrors_of (subsystems env s) = mirrors_of s" "file_keys (subsystems env s) = {}"
    "boot_proc_kmallocs env = (True, True, True) \<Longrightarrow> proc_keys (subsystems env s) = default_procs"
    "boot_audit_kmallocs env = (True, True, True, True, True) \<Longrightarrow>
     blocked_set (subsystems env s) = default_syscalls"
proof -
  let ?p = "snd (aegis_process_init (boot_proc_kmallocs env) s)"
  let ?f = "snd (aegis_file_init (AEGIS_INFO ''  [+] Process protection: active'' ?p))"
  have eq: "subsystems env s =
      snd (aegis_audit_init (boot_audit_kmallocs env) (AEGIS_INFO ''  [+] File integrity: active'' ?f))"
    by (simp add: subsystems_def Let_def)
  have b: "blocked_syscalls (AEGIS_INFO ''  [+] File integrity: active'' ?f) = []"
    using assms(3) by simp
  have "procs_wf (subsystems env s) = procs_wf ?p"
    unfolding eq by (rule wf_by_fields) simp_all
  moreover have "files_wf (subsystems env s)"
    using assms(2) by (simp add: eq files_wf_def)
  moreover have "syscalls_wf (subsystems env s)"
    unfolding eq by (rule audit_init_result(2) [OF b])
  ultimately show "lists_wf (subsystems env s)"
    using process_init_result(2) [OF assms(1)] by (simp add: lists_wf_def)
  show "aegis_cfg (subsystems env s) = aegis_cfg s" "mirrors_of (subsystems env s) = mirrors_of s"
    by (simp_all add: eq)
  show "file_keys (subsystems env s) = {}" using assms(2) by (simp add: eq file_keys_def)
  have "proc_keys (subsystems env s) = proc_keys ?p" by (simp add: eq proc_keys_def)
  then show "boot_proc_kmallocs env = (True, True, True) \<Longrightarrow>
      proc_keys (subsystems env s) = default_procs"
    using process_init_result(3) [OF assms(1)] by simp
  show "boot_audit_kmallocs env = (True, True, True, True, True) \<Longrightarrow>
     blocked_set (subsystems env s) = default_syscalls"
    unfolding eq by (rule audit_init_result(3) [OF b])
qed

lemma boot_state_facts:
  shows "lists_wf (boot_state env)" "sysctl_sync (boot_state env)"
    "aegis_cfg (boot_state env) = aegis_cfg_init" "file_keys (boot_state env) = {}"
    "boot_proc_kmallocs env = (True, True, True) \<Longrightarrow> proc_keys (boot_state env) = default_procs"
    "boot_audit_kmallocs env = (True, True, True, True, True) \<Longrightarrow>
     blocked_set (boot_state env) = default_syscalls"
proof -
  note sub = subsystems_state [of "boot_banner aegis_statics" env, simplified]
  note shape = init_shape [of env aegis_statics]
  note lists = same_lists [OF shape(3)]
  show "lists_wf (boot_state env)" "aegis_cfg (boot_state env) = aegis_cfg_init"
    "file_keys (boot_state env) = {}"
    using sub lists shape by (simp_all add: boot_state_def)
  show "boot_proc_kmallocs env = (True, True, True) \<Longrightarrow> proc_keys (boot_state env) = default_procs"
    "boot_audit_kmallocs env = (True, True, True, True, True) \<Longrightarrow>
     blocked_set (boot_state env) = default_syscalls"
    using sub lists by (simp_all add: boot_state_def)
  have "sysctl_sync (boot_state env) = sysctl_sync aegis_statics"
    using sub shape by (intro sync_by_mirrors) (simp_all add: boot_state_def)
  then show "sysctl_sync (boot_state env)" by (simp add: sysctl_sync_statics)
qed

section \<open>Properties\<close>

text \<open>
  C30: Boot. Whatever memory and the sysctl layer give, initialisation registers all eleven
  hooks, succeeds exactly when the sysctl table registers, and leaves well-formed lists, mirrors
  that agree with the configuration, the default configuration and no protected file; with
  memory available the lists hold exactly the documented defaults.
\<close>

theorem boot_establishes_policy:
  "fst (aegis_init env aegis_statics) = (if boot_register_sysctl env then ret0 else Inl ENOMEM) \<and>
   fst (snd (aegis_init env aegis_statics)) = aegis_hook_names \<and> length aegis_hook_names = 11 \<and>
   lists_wf (boot_state env) \<and> sysctl_sync (boot_state env) \<and>
   aegis_cfg (boot_state env) = aegis_cfg_init \<and> file_keys (boot_state env) = {} \<and>
   (boot_proc_kmallocs env = (True, True, True) \<longrightarrow> proc_keys (boot_state env) = default_procs) \<and>
   (boot_audit_kmallocs env = (True, True, True, True, True) \<longrightarrow>
    blocked_set (boot_state env) = default_syscalls)"
  using init_shape(1,2) [of env aegis_statics] boot_state_facts [of env]
  by (simp add: aegis_hook_names_def)

text \<open>A boot with memory in which the sysctl table does not register.\<close>

definition demo_boot :: boot_env where
  "demo_boot = \<lparr>boot_proc_kmallocs = (True, True, True),
     boot_audit_kmallocs = (True, True, True, True, True), boot_register_sysctl = False\<rparr>"

theorem boot_establishes_policy_witness:
  "fst (aegis_init demo_boot aegis_statics) = Inl ENOMEM \<and>
   proc_keys (boot_state demo_boot) = default_procs \<and>
   blocked_set (boot_state demo_boot) = default_syscalls"
  using boot_establishes_policy [of demo_boot] by (simp add: demo_boot_def)

text \<open>
  C29: The default policy holds from boot on, even when initialisation reports a failure of the
  sysctl table: a task can be attached to exactly when it is not pid 1 and neither it nor its
  leader is named \<open>sshd\<close>; modules and kexec images, from files and from memory, are refused;
  no file access is.
\<close>

theorem default_policy_enforced:
  assumes "boot_proc_kmallocs env = (True, True, True)"
    and "boot_audit_kmallocs env = (True, True, True, True, True)"
  shows "fst (aegis_ptrace_access_check ke child mode (boot_state env)) =
      (if task_pid child = 1 \<or> cstr (task_comm child) = ''sshd'' \<or>
          cstr (task_leader_comm child) = ''sshd'' then Inl EPERM else ret0) \<and>
    (\<forall>rid\<in>{READING_MODULE, READING_KEXEC_IMAGE, READING_KEXEC_INITRAMFS}.
       fst (aegis_kernel_read_file ke f rid c (boot_state env)) = Inl EPERM) \<and>
    (\<forall>lid\<in>{LOADING_MODULE, LOADING_KEXEC_IMAGE}.
       fst (aegis_kernel_load_data ke lid c (boot_state env)) = Inl EPERM) \<and>
    fst (aegis_file_permission ke g msk (boot_state env)) = ret0"
proof -
  note facts = boot_state_facts [of env]
  have wf: "procs_wf (boot_state env)" "files_wf (boot_state env)"
    using facts(1) by (simp_all add: lists_wf_def)
  have feat: "AEGIS_FEATURE_CHECK f (boot_state env) = AEGIS_FEATURE_CHECK f aegis_statics" for f
    by (simp add: AEGIS_FEATURE_CHECK_def facts(3))
  have blocked: "aegis_is_syscall_blocked nr (boot_state env) \<longleftrightarrow> nr \<in> default_syscalls" for nr
    using facts(6) [OF assms(2)] by (simp add: is_syscall_blocked_iff feat facts(3) aegis_cfg_init_def)
  have "protects_task (proc_keys (boot_state env)) child \<longleftrightarrow>
      task_pid child = 1 \<or> cstr (task_comm child) = ''sshd'' \<or> cstr (task_leader_comm child) = ''sshd''"
    unfolding facts(5) [OF assms(1)] protects_task_def default_procs_def
    by (simp del: list.simps) metis
  then have "fst (aegis_ptrace_access_check ke child mode (boot_state env)) =
      (if task_pid child = 1 \<or> cstr (task_comm child) = ''sshd'' \<or>
          cstr (task_leader_comm child) = ''sshd'' then Inl EPERM else ret0)"
    unfolding ptrace_verdict [OF wf(1)] by (simp add: feat facts(3) aegis_cfg_init_def)
  moreover have "fst (aegis_file_permission ke g msk (boot_state env)) = ret0"
    unfolding file_permission_verdict by (simp add: is_file_protected_iff [OF wf(2)] facts(4))
  ultimately show ?thesis
    by (simp add: read_file_verdict load_data_verdict blocked default_syscalls_def facts(3)
        aegis_cfg_init_def syscall_nrs)
qed

theorem default_policy_enforced_witness:
  "boot_proc_kmallocs demo_boot = (True, True, True) \<and>
   fst (aegis_ptrace_access_check demo_kenv demo_sshd 0 (boot_state demo_boot)) = Inl EPERM"
  using default_policy_enforced [of demo_boot demo_kenv demo_sshd 0]
  by (simp add: demo_boot_def demo_sshd_def cstr_Cons)

end
