(* ===== verification/Aegis_System.thy ===== *)
theory Aegis_System
  imports Aegis_Boot
begin

unbundle bit_operations_syntax

text \<open>
  The module in operation, one call after another: after boot the kernel calls hooks, users
  write to the control endpoints and access the sysctl knobs, in any order. The step relation
  takes each of these as one step; a run is a sequence of labelled steps. Invariants of all runs
  from boot, and what a protection that was put in place guarantees later, are proved over it.
  Calls that run at the same time are the subject of \<open>Aegis_Threads\<close> and the theories after it;
  \<open>Aegis_Rounds\<close> has the invariants of the module for them.
\<close>

section \<open>Steps and runs\<close>

datatype ('d, 'p) label =
    L_hook "'p kenv" "'p hook_call"
  | L_write "('d, 'p) ctl_env" endpoint string nat
  | L_knob knob dointvec bool string

inductive sys_step :: "('d, 'p) label \<Rightarrow> aegis_state \<Rightarrow> aegis_state \<Rightarrow> bool" where
  step_hook: "sys_step (L_hook env h) s (snd (aegis_hooks env h s))"
| step_write: "aectl_write env ep ubuf len s = Some (r, t) \<Longrightarrow> sys_step (L_write env ep ubuf len) s t"
| step_knob: "dointvec_laws dv \<Longrightarrow> sys_step (L_knob k dv wr buf) s (snd (knob_handler k dv wr buf s))"

inductive_simps sys_step_simps:
  "sys_step (L_hook env h) s t"
  "sys_step (L_write env ep ubuf len) s t"
  "sys_step (L_knob k dv wr buf) s t"

inductive sys_run :: "aegis_state \<Rightarrow> ('d, 'p) label list \<Rightarrow> aegis_state \<Rightarrow> bool" for s where
  run_none: "sys_run s [] s"
| run_step: "sys_run s ls t \<Longrightarrow> sys_step l t u \<Longrightarrow> sys_run s (ls @ [l]) u"

definition sys_inv :: "aegis_state \<Rightarrow> bool" where
  "sys_inv s \<longleftrightarrow> lists_wf s \<and> sysctl_sync s"

lemma policy_parts:
  assumes "policy_of t = policy_of s"
  shows "lists_of t = lists_of s" "mirrors_of t = mirrors_of s"
    "cfg_policy (aegis_cfg t) = cfg_policy (aegis_cfg s)"
proof -
  have "lists_of (policy_of t) = lists_of (policy_of s)"
    and "mirrors_of (policy_of t) = mirrors_of (policy_of s)"
    and "aegis_cfg (policy_of t) = aegis_cfg (policy_of s)" using assms by simp_all
  then show "lists_of t = lists_of s" "mirrors_of t = mirrors_of s"
    "cfg_policy (aegis_cfg t) = cfg_policy (aegis_cfg s)"
    by (simp_all add: policy_of_def lists_of_def mirrors_of_def)
qed

lemma reached_mirrors: "reached env ubuf len s ep (r, t) \<Longrightarrow> mirrors_of t = mirrors_of s"
  by (erule reached.cases) (metis mirrors_ops mirrors_file_add snd_conv)+

lemma write_mirrors:
  assumes "aectl_write env ep ubuf len s = Some (r, t)"
  shows "mirrors_of t = mirrors_of s"
  using assms by (rule write_cases) (auto dest: reached_mirrors)

lemma sys_step_inv:
  assumes "sys_step l s t" "sys_inv s"
  shows "sys_inv t"
  using assms(1)
proof cases
  case (step_hook env h)
  then have "policy_of t = policy_of s" by (simp add: hooks_keep_policy)
  from policy_parts [OF this] show ?thesis
    using assms(2) same_lists(1) [of t s] sync_by_mirrors [of t s] by (simp add: sys_inv_def)
next
  case (step_write env ep ubuf len r)
  from write_wf [OF step_write(2)] write_mirrors [OF step_write(2)] show ?thesis
    using assms(2) sync_by_mirrors [of t s] by (simp add: sys_inv_def)
next
  case (step_knob dv k wr buf)
  then show ?thesis
    using assms(2) sysctl_sync_step [of dv s k wr buf] same_lists(1) [of t s]
    by (simp add: sys_inv_def)
qed

lemma sys_run_inv: "sys_run s ls t \<Longrightarrow> sys_inv s \<Longrightarrow> sys_inv t"
  by (induction rule: sys_run.induct) (auto intro: sys_step_inv)

lemma boot_inv: "sys_inv (boot_state env)"
  by (simp add: sys_inv_def boot_state_facts)


section \<open>Steps that carry no authority\<close>

text \<open>
  Hook calls, control writes by callers without the capability, and reads of knobs: what
  everyone on the system can cause.
\<close>

fun unprivileged :: "('d, 'p) label \<Rightarrow> bool" where
  "unprivileged (L_hook env h) \<longleftrightarrow> True"
| "unprivileged (L_write env ep ubuf len) \<longleftrightarrow> \<not> capable_mac_admin env"
| "unprivileged (L_knob k dv wr buf) \<longleftrightarrow> \<not> wr"

lemma knob_read_same: "dointvec_laws dv \<Longrightarrow> snd (knob_handler k dv False buf s) = s"
  by (cases k) (auto simp: sysctl_defs Let_def case_prod_beta dointvec_laws_def)

lemma unprivileged_step: "sys_step l s t \<Longrightarrow> unprivileged l \<Longrightarrow> policy_of t = policy_of s"
  by (erule sys_step.cases) (auto simp: hooks_keep_policy knob_read_same write_refused)

lemma unprivileged_run:
  "sys_run s ls t \<Longrightarrow> list_all unprivileged ls \<Longrightarrow> policy_of t = policy_of s"
  by (induction rule: sys_run.induct) (auto simp: list_all_append dest: unprivileged_step)

fun admin_write :: "('d, 'p) label \<Rightarrow> bool" where
  "admin_write (L_write env ep ubuf len) \<longleftrightarrow> capable_mac_admin env"
| "admin_write _ \<longleftrightarrow> False"

lemma step_lists: "sys_step l s t \<Longrightarrow> \<not> admin_write l \<Longrightarrow> lists_of t = lists_of s"
  by (erule sys_step.cases)
    (auto simp: write_refused hooks_keep_policy intro: policy_parts(1))

lemma run_lists: "sys_run s ls t \<Longrightarrow> \<forall>l\<in>set ls. \<not> admin_write l \<Longrightarrow> lists_of t = lists_of s"
  by (induction rule: sys_run.induct) (auto dest: step_lists)


section \<open>What an accepted write establishes\<close>

lemma write_success_env:
  assumes "aectl_write env Files_add ubuf len s = Some (Inr n, t)" "n \<noteq> 0"
  shows "capable_mac_admin env" "ctl_kmalloc env"
  using assms by (auto simp: control_defs split: if_splits)

lemma file_write_protects:
  assumes "sys_inv s" "plain_text p" "length p < AEGIS_PATH_LEN" "nl = [] \<or> nl = [LF]"
    and w: "aectl_write env Files_add (p @ nl) (length (p @ nl)) s = Some (Inr n, t)" "n \<noteq> 0"
  shows "files_wf t" "p \<in> file_keys t" "aegis_cfg t = aegis_cfg s"
proof -
  have wf: "lists_wf s" using assms(1) by (simp add: sys_inv_def)
  from write_wf [OF w(1) wf] show "files_wf t" "aegis_cfg t = aegis_cfg s"
    by (simp_all add: lists_wf_def)
  have auth: "aectl_authorized env" using write_success_env [OF w] by (simp add: aectl_authorized_def)
  obtain buf where b: "cstr buf = p" and op: "\<And>oper. aectl_write_op env (p @ nl) (length (p @ nl)) oper s =
    (case oper buf s of None \<Rightarrow> None
     | Some (r, t) \<Rightarrow> Some (if r = ret0 then Inr (length (p @ nl)) else r, t))"
    using write_op_text [OF auth write_success_env(2) [OF w] assms(2,4,3)] by blast
  have "file_valid buf" using b assms(3) by (simp add: file_valid_def)
  moreover obtain r where r: "aegis_protected_file_add (ctl_file env) (Some buf) s = Some (r, t)"
    and r0: "r = ret0"
    using w(1) [unfolded aectl_write.simps aectl_files_add_write_def op]
      op_zero(6) [of "ctl_file env" "Some buf" s]
    by (auto split: option.splits if_splits)
  ultimately have "(r, file_keys t) =
      bset_insert (fe_kmalloc (ctl_file env)) AEGIS_MAX_PROTECTED_FILES p (file_keys s)"
    using file_add_refines [of s buf "ctl_file env" r t] wf b by (simp add: lists_wf_def)
  with r0 show "p \<in> file_keys t" by (auto simp: bset_insert_def bset_add_def split: if_splits)
qed


lemma proc_write_protects:
  assumes "sys_inv s" "comm_word c" "nl = [] \<or> nl = [LF]"
    and w: "aectl_write env Procs_add (c @ nl) (length (c @ nl)) s = Some (Inr n, t)" "n \<noteq> 0"
  shows "procs_wf t" "(c, 0) \<in> proc_keys t" "aegis_cfg t = aegis_cfg s"
proof -
  have wf: "lists_wf s" using assms(1) by (simp add: sys_inv_def)
  from write_wf [OF w(1) wf] show "procs_wf t" "aegis_cfg t = aegis_cfg s"
    by (simp_all add: lists_wf_def)
  have auth: "aectl_authorized env"
    using w by (auto simp: aectl_procs_add_write_def split: if_splits)
  have c: "plain_text c" "cstr c = c" "length (cstr c) < AEGIS_COMM_LEN"
  proof -
    have no: "\<forall>x\<in>set c. \<not> isspace x \<and> x \<noteq> NUL" "c \<noteq> []" "length c \<le> 15"
      using assms(2) by (simp_all add: comm_word_def)
    show "plain_text c" by (rule plain_no_space [OF no(2,1)])
    show c: "cstr c = c" using no(1) by (intro cstr_id) auto
    show "length (cstr c) < AEGIS_COMM_LEN" using no(3) by (simp add: c AEGIS_COMM_LEN_def)
  qed
  have "length nl \<le> 1" using assms(3) by auto
  then have "length (c @ nl) < AEGIS_PATH_LEN"
    using c(2,3) by (simp add: AEGIS_PATH_LEN_def AEGIS_COMM_LEN_def)
  from procs_write_text(1) [OF auth c(1) assms(3) this, of 0 c 0 s] sscanf_comm [OF assms(2)]
  have "aectl_procs_add_write env (c @ nl) (length (c @ nl)) s =
      (case aegis_protect_process_add (ctl_entry_kmalloc env) (Some c) 0 s of
         (r, t) \<Rightarrow> (if r = ret0 then Inr (length (c @ nl)) else r, t))" by simp
  with w(1) op_zero(1) [of "ctl_entry_kmalloc env" "Some c" 0 s]
  have "aegis_protect_process_add (ctl_entry_kmalloc env) (Some c) 0 s = (ret0, t)"
    by (auto split: prod.splits if_splits)
  from process_add_refines [OF _ c(3) this] wf c(2) show "(c, 0) \<in> proc_keys t"
    by (auto simp: lists_wf_def bset_insert_def bset_add_def split: if_splits)
qed

lemma same_feature:
  "aegis_cfg t = aegis_cfg s \<Longrightarrow> AEGIS_FEATURE_CHECK f t = AEGIS_FEATURE_CHECK f s"
  by (simp add: AEGIS_FEATURE_CHECK_def)

lemma verdict_file_denied:
  assumes "files_wf t" "p \<in> file_keys t" "AEGIS_FEATURE_CHECK AEGIS_FEATURE_FILE_INTEGRITY t"
    "file_integrity_enforce (aegis_cfg t)" "msk AND (MAY_WRITE OR MAY_APPEND) \<noteq> 0"
    "get_free_page ke" "d_path ke (f_path f) = Inr path" "cstr path = p"
  shows "fst (aegis_file_permission ke f msk t) = Inl EACCES"
proof -
  have "aegis_protected_file_count t \<noteq> 0"
    using count_0_no_files [OF assms(1)] assms(2) by (auto simp: file_keys_def)
  with assms show ?thesis
    unfolding file_permission_verdict by (auto simp: is_file_protected_iff)
qed


section \<open>Properties\<close>

text \<open>
  In every state such a run reaches from boot, the three lists are well formed and the knobs
  show what the hooks consult: what the code guarantees when its calls follow one another.
\<close>

lemma sequential_states_safe:
  "sys_run (boot_state env) ls s \<Longrightarrow> lists_wf s \<and> sysctl_sync s"
  using sys_run_inv [OF _ boot_inv] by (simp add: sys_inv_def)

text \<open>
  C4: Those without authority change no decision. Any run of hook calls, control writes
  without \<open>CAP_MAC_ADMIN\<close> and knob reads leaves the policy as it was, and every hook call
  gets afterwards the verdict it would have got before.
\<close>

theorem unprivileged_cannot_change_verdicts:
  assumes "sys_run s ls t" and "list_all unprivileged ls"
  shows "policy_of t = policy_of s \<and> fst (aegis_hooks env h t) = fst (aegis_hooks env h s)"
  using unprivileged_run [OF assms] hooks_by_policy by blast

theorem unprivileged_cannot_change_verdicts_witness:
  "list_all unprivileged
     [L_write (demo_ctl False) Procs_del ''sshd'' 4 :: (8 word list, unit) label] \<and>
   (\<exists>t. sys_run demo_state
      [L_write (demo_ctl False) Procs_del ''sshd'' 4 :: (8 word list, unit) label] t \<and>
      fst (aegis_hooks demo_kenv (Ptrace_access_check demo_sshd 0) t) = Inl EPERM)"
proof -
  let ?l = "L_write (demo_ctl False) Procs_del ''sshd'' 4 :: (8 word list, unit) label"
  have np: "\<not> capable_mac_admin (demo_ctl False)" by (simp add: demo_ctl_def)
  have "sys_run demo_state ([] @ [?l]) demo_state"
    by (rule run_step [OF run_none step_write [OF write_refused [OF np]]])
  then have run: "sys_run demo_state [?l] demo_state" by simp
  have u: "list_all unprivileged [?l]" using np by simp
  have "fst (aegis_hooks demo_kenv (Ptrace_access_check demo_sshd 0) demo_state) = Inl EPERM"
    by (simp add: ptrace_verdict [OF demo_wf(1)] protects_task_def demo cstr_Cons)
  with unprivileged_cannot_change_verdicts [OF run u, of demo_kenv "Ptrace_access_check demo_sshd 0"]
    run u show ?thesis by auto
qed

text \<open>
  C5: Only a control write by a holder of \<open>CAP_MAC_ADMIN\<close> changes a policy list: a run
  without one, knob writes included, leaves the lists and their counters as they were.
\<close>

theorem lists_change_only_by_admin:
  assumes "sys_run s ls t" and "\<forall>l\<in>set ls. \<not> admin_write l"
  shows "lists_of t = lists_of s"
  by (rule run_lists [OF assms])

theorem lists_change_only_by_admin_witness:
  "\<not> admin_write (L_knob K_enabled demo_dointvec True ''0'' :: (8 word list, unit) label) \<and>
   (\<exists>t. sys_run demo_state [L_knob K_enabled demo_dointvec True ''0'' :: (8 word list, unit) label] t \<and>
      lists_of t = lists_of demo_state)"
proof -
  let ?l = "L_knob K_enabled demo_dointvec True ''0'' :: (8 word list, unit) label"
  have "sys_run demo_state ([] @ [?l]) (snd (knob_handler K_enabled demo_dointvec True ''0'' demo_state))"
    by (rule run_step [OF run_none step_knob [OF demo_dointvec_laws]])
  then have "sys_run demo_state [?l] (snd (knob_handler K_enabled demo_dointvec True ''0'' demo_state))"
    by (simp only: append_Nil)
  with lists_change_only_by_admin [OF this] show ?thesis by auto
qed

end
