(* ===== verification/Aegis_Securityfs.thy ===== *)
theory Aegis_Securityfs
  imports Aegis_Endpoints
begin

unbundle bit_operations_syntax

text \<open>
  The securityfs tree, \<^verbatim>\<open>aegis/aegis_securityfs.c\<close> with the wiring functions of
  \<^verbatim>\<open>aegis_control.c\<close>: the read-side show operations, the creation of the directory,
  its five read files and six write endpoints, and their removal. \<open>securityfs_create\<close> is
  given by a function that says which names fail and with which error; the calls the module
  makes are recorded as events, so that the tree they leave behind can be stated.
\<close>

section \<open>Show operations\<close>

definition on_off :: "bool \<Rightarrow> string" where
  "on_off b = (if b then ''ON'' else ''OFF'')"

definition aegis_status_show :: "aegis_state \<Rightarrow> string" where
  "aegis_status_show s =
     replicate 46 (CHR ''='') @ [LF] @
     ''  AEGIS v'' @ AEGIS_VERSION @ '' - Advanced Guardian for'' @ [LF] @
     ''  Integrated System Security'' @ [LF] @
     replicate 46 (CHR ''='') @ [LF] @
     [LF] @
     ''  Status:        '' @ (if enabled (aegis_cfg s) then ''ACTIVE'' else ''DISABLED'') @ [LF] @
     ''  Features:      0x'' @ fmt_08x (features (aegis_cfg s)) @ [LF] @
     [LF] @
     ''  Process Protection:   '' @ on_off (AEGIS_FEATURE_CHECK AEGIS_FEATURE_PROCESS_PROTECT s) @ [LF] @
     ''  File Integrity:       '' @ on_off (AEGIS_FEATURE_CHECK AEGIS_FEATURE_FILE_INTEGRITY s) @ [LF] @
     ''  Syscall Audit:        '' @ on_off (AEGIS_FEATURE_CHECK AEGIS_FEATURE_SYSCALL_AUDIT s) @ [LF] @
     ''  Module Control:       '' @ on_off (AEGIS_FEATURE_CHECK AEGIS_FEATURE_MODULE_CONTROL s) @ [LF] @
     ''  Ptrace Restrict:      '' @ on_off (AEGIS_FEATURE_CHECK AEGIS_FEATURE_PTRACE_RESTRICT s) @ [LF] @
     [LF] @
     ''  Ptrace All Restrict:  '' @ on_off (ptrace_restrict_all (aegis_cfg s)) @ [LF] @
     ''  File Integrity Enf:   '' @ on_off (file_integrity_enforce (aegis_cfg s)) @ [LF] @
     ''  Module Loading Deny:  '' @ on_off (module_loading_denied (aegis_cfg s)) @ [LF] @
     [LF]"

definition fmt_lld :: "64 word \<Rightarrow> string" where
  "fmt_lld c = fmt_d (sint c)"

definition aegis_stats_show :: "aegis_state \<Rightarrow> string" where
  "aegis_stats_show s =
     ''AEGIS Event Statistics:'' @ [LF] @
     ''======================='' @ [LF] @
     ''  Ptrace blocked:       '' @ fmt_lld (ptrace_blocked (aegis_cfg s)) @ [LF] @
     ''  File violations:      '' @ fmt_lld (file_violations (aegis_cfg s)) @ [LF] @
     ''  Syscall violations:   '' @ fmt_lld (syscall_violations (aegis_cfg s)) @ [LF] @
     ''  Module violations:    '' @ fmt_lld (module_violations (aegis_cfg s)) @ [LF] @
     ''  Total events:         '' @ fmt_lld (total_events (aegis_cfg s)) @ [LF] @
     [LF]"

text \<open>The read files of the directory and what reading each one shows.\<close>

fun read_show :: "string \<Rightarrow> aegis_state \<Rightarrow> string option" where
  "read_show name s =
     (if name = ''status'' then Some (aegis_status_show s)
      else if name = ''stats'' then Some (aegis_stats_show s)
      else if name = ''protected_procs'' then Some (aegis_protected_process_show s)
      else if name = ''protected_files'' then Some (aegis_protected_file_show s)
      else if name = ''blocked_syscalls'' then Some (aegis_blocked_syscall_show s)
      else None)"


section \<open>The tree\<close>

datatype dptr = DNULL | DERR errno | DENT string

datatype sfs_event = Created string nat | Removed string

record sfs_state =
  aegis_dir :: dptr
  aegis_status_d :: dptr
  aegis_stats_d :: dptr
  aegis_protected_procs_d :: dptr
  aegis_protected_files_d :: dptr
  aegis_blocked_syscalls_d :: dptr
  aectl_dentries :: "dptr list"
  sfs_events :: "sfs_event list"
  sfs_klog :: "(loglevel \<times> string) list"

type_synonym sfs_fail = "string \<Rightarrow> errno option"

definition sfs_statics :: sfs_state where
  "sfs_statics =
     \<lparr>aegis_dir = DNULL, aegis_status_d = DNULL, aegis_stats_d = DNULL,
      aegis_protected_procs_d = DNULL, aegis_protected_files_d = DNULL,
      aegis_blocked_syscalls_d = DNULL, aectl_dentries = replicate 6 DNULL,
      sfs_events = [], sfs_klog = []\<rparr>"

definition sfs_printk :: "loglevel \<Rightarrow> string \<Rightarrow> sfs_state \<Rightarrow> sfs_state" where
  "sfs_printk l msg d = d\<lparr>sfs_klog := sfs_klog d @ [(l, ''aegis: '' @ msg @ [LF])]\<rparr>"

definition sfs_create :: "sfs_fail \<Rightarrow> string \<Rightarrow> nat \<Rightarrow> sfs_state \<Rightarrow> dptr \<times> sfs_state" where
  "sfs_create fails name mode d =
     (case fails name of
        Some e \<Rightarrow> (DERR e, d)
      | None \<Rightarrow> (DENT name, d\<lparr>sfs_events := sfs_events d @ [Created name mode]\<rparr>))"

text \<open>The removal of a pointer that is neither \<open>NULL\<close> nor an error pointer.\<close>

definition remove_unless_err_or_null :: "dptr \<Rightarrow> sfs_state \<Rightarrow> sfs_state" where
  "remove_unless_err_or_null p d =
     (case p of DENT name \<Rightarrow> d\<lparr>sfs_events := sfs_events d @ [Removed name]\<rparr> | _ \<Rightarrow> d)"

text \<open>The loop of \<open>aegis_control_init\<close>: mode 0200 is 128.\<close>

fun control_init_loop ::
    "sfs_fail \<Rightarrow> nat \<Rightarrow> (string \<times> endpoint) list \<Rightarrow> sfs_state \<Rightarrow> cret \<times> sfs_state" where
  "control_init_loop fails i [] d = (ret0, d)"
| "control_init_loop fails i ((name, ep) # rest) d =
     (case sfs_create fails name 128 d of
        (DERR e, d1) \<Rightarrow> (Inl e, d1)
      | (p, d1) \<Rightarrow>
          control_init_loop fails (Suc i) rest (d1\<lparr>aectl_dentries := (aectl_dentries d1)[i := p]\<rparr>))"

definition aegis_control_init :: "sfs_fail \<Rightarrow> sfs_state \<Rightarrow> cret \<times> sfs_state" where
  "aegis_control_init fails d =
     (case control_init_loop fails 0 aectl_entries d of
        (Inl e, d1) \<Rightarrow> (Inl e, d1)
      | (Inr n, d1) \<Rightarrow>
          (ret0, sfs_printk KERN_INFO
             ''Control interface ready (6 write endpoints, CAP_MAC_ADMIN)'' d1))"

text \<open>The loop of \<open>aegis_control_exit\<close> over the remaining indices.\<close>

fun control_exit_loop :: "nat list \<Rightarrow> sfs_state \<Rightarrow> sfs_state" where
  "control_exit_loop [] d = d"
| "control_exit_loop (i # is) d =
     (let d1 = remove_unless_err_or_null (aectl_dentries d ! i) d in
      control_exit_loop is (d1\<lparr>aectl_dentries := (aectl_dentries d1)[i := DNULL]\<rparr>))"

definition aegis_control_exit :: "sfs_state \<Rightarrow> sfs_state" where
  "aegis_control_exit d = control_exit_loop [0..<6] d"

definition aegis_securityfs_exit :: "sfs_state \<Rightarrow> sfs_state" where
  "aegis_securityfs_exit d =
     (let d = aegis_control_exit d;
          d = remove_unless_err_or_null (aegis_status_d d) d;
          d = remove_unless_err_or_null (aegis_stats_d d) d;
          d = remove_unless_err_or_null (aegis_protected_procs_d d) d;
          d = remove_unless_err_or_null (aegis_protected_files_d d) d;
          d = remove_unless_err_or_null (aegis_blocked_syscalls_d d) d;
          d = remove_unless_err_or_null (aegis_dir d) d
      in d\<lparr>aegis_status_d := DNULL, aegis_stats_d := DNULL, aegis_protected_procs_d := DNULL,
           aegis_protected_files_d := DNULL, aegis_blocked_syscalls_d := DNULL,
           aegis_dir := DNULL\<rparr>)"

text \<open>
  The five read files, each with the variable that takes its dentry; the variable is assigned
  before the error check, so a failed creation leaves an error pointer in it. Mode 0444 is 292.
\<close>

definition read_files ::
    "(string \<times> ((dptr \<Rightarrow> dptr) \<Rightarrow> sfs_state \<Rightarrow> sfs_state)) list" where
  "read_files =
     [(''status'', aegis_status_d_update), (''stats'', aegis_stats_d_update),
      (''protected_procs'', aegis_protected_procs_d_update),
      (''protected_files'', aegis_protected_files_d_update),
      (''blocked_syscalls'', aegis_blocked_syscalls_d_update)]"

fun create_read_files ::
    "sfs_fail \<Rightarrow> (string \<times> ((dptr \<Rightarrow> dptr) \<Rightarrow> sfs_state \<Rightarrow> sfs_state)) list \<Rightarrow> sfs_state \<Rightarrow>
     cret \<times> sfs_state" where
  "create_read_files fails [] d = (ret0, d)"
| "create_read_files fails ((name, upd) # rest) d =
     (case sfs_create fails name 292 d of
        (DERR e, d1) \<Rightarrow> (Inl e, upd (\<lambda>_. DERR e) d1)
      | (p, d1) \<Rightarrow> create_read_files fails rest (upd (\<lambda>_. p) d1))"

definition aegis_securityfs_err :: "errno \<Rightarrow> sfs_state \<Rightarrow> cret \<times> sfs_state" where
  "aegis_securityfs_err e d =
     (Inl e, sfs_printk KERN_ERR (''Failed to create securityfs entry: '' @ fmt_d (- errno_code e))
        (aegis_securityfs_exit d))"

definition aegis_securityfs_init :: "sfs_fail \<Rightarrow> sfs_state \<Rightarrow> cret \<times> sfs_state" where
  "aegis_securityfs_init fails d =
     (case sfs_create fails AEGIS_NAME 493 d of
        (DERR e, d1) \<Rightarrow>
          (Inl e, sfs_printk KERN_ERR
             (''Failed to create securityfs directory: '' @ fmt_d (- errno_code e))
             (d1\<lparr>aegis_dir := DNULL\<rparr>))
      | (p, d1) \<Rightarrow>
          (case create_read_files fails read_files (d1\<lparr>aegis_dir := p\<rparr>) of
             (Inl e, d2) \<Rightarrow> aegis_securityfs_err e d2
           | (Inr _, d2) \<Rightarrow>
               (case aegis_control_init fails d2 of
                  (Inl e, d3) \<Rightarrow> aegis_securityfs_err e d3
                | (Inr _, d3) \<Rightarrow>
                    (ret0, sfs_printk KERN_INFO
                       ''Securityfs interface created at /sys/kernel/security/aegis/'' d3))))"

definition aegis_securityfs_late_init :: "sfs_fail \<Rightarrow> sfs_state \<Rightarrow> cret \<times> sfs_state" where
  "aegis_securityfs_late_init fails d =
     (case aegis_securityfs_init fails d of
        (Inl e, d1) \<Rightarrow>
          (Inl e, sfs_printk KERN_ERR
             (''securityfs init deferred call failed: '' @ fmt_d (- errno_code e)) d1)
      | (Inr n, d1) \<Rightarrow> (Inr n, d1))"


section \<open>The events as a file system history\<close>

text \<open>
  The names alive after a history, or \<open>None\<close> if it removes something that is not there,
  creates a name twice, creates a file without the directory or removes the directory while a
  file is left.
\<close>

fun replay :: "sfs_event list \<Rightarrow> string list \<Rightarrow> string list option" where
  "replay [] live = Some live"
| "replay (Created n m # es) live =
     (if n \<in> set live \<or> (n \<noteq> AEGIS_NAME \<and> AEGIS_NAME \<notin> set live) then None
      else replay es (live @ [n]))"
| "replay (Removed n # es) live =
     (if n \<notin> set live \<or> (n = AEGIS_NAME \<and> live \<noteq> [AEGIS_NAME]) then None
      else replay es (remove1 n live))"

definition sfs_pointers :: "sfs_state \<Rightarrow> dptr list" where
  "sfs_pointers d =
     [aegis_dir d, aegis_status_d d, aegis_stats_d d, aegis_protected_procs_d d,
      aegis_protected_files_d d, aegis_blocked_syscalls_d d] @ aectl_dentries d"

definition sfs_names :: "string list" where
  "sfs_names =
     [AEGIS_NAME, ''status'', ''stats'', ''protected_procs'', ''protected_files'',
      ''blocked_syscalls'', ''protected_files_add'', ''protected_files_del'',
      ''protected_procs_add'', ''protected_procs_del'', ''blocked_syscalls_add'',
      ''blocked_syscalls_del'']"

text \<open>The mode of a live entry after a history.\<close>

primrec live_modes :: "sfs_event list \<Rightarrow> (string \<rightharpoonup> nat) \<Rightarrow> (string \<rightharpoonup> nat)" where
  "live_modes [] m = m"
| "live_modes (e # es) m =
     live_modes es (case e of Created n mode \<Rightarrow> m(n \<mapsto> mode) | Removed n \<Rightarrow> m(n := None))"

definition entry_mode :: "sfs_state \<Rightarrow> string \<Rightarrow> nat option" where
  "entry_mode d name = live_modes (sfs_events d) Map.empty name"

lemmas sfs_defs =
  aegis_securityfs_init_def aegis_securityfs_err_def aegis_securityfs_exit_def
  aegis_control_init_def aegis_control_exit_def sfs_create_def remove_unless_err_or_null_def
  aectl_entries_def read_files_def sfs_printk_def AEGIS_NAME_def Let_def upt_conv_Cons

section \<open>What initialisation leaves behind\<close>

text \<open>
  The outcome of creating the tree: everything there with its modes and pointers, or nothing
  left and every pointer \<open>NULL\<close>.
\<close>

definition tree_up :: "sfs_state \<Rightarrow> bool" where
  "tree_up d \<longleftrightarrow>
     replay (sfs_events d) [] = Some sfs_names \<and> sfs_pointers d = map DENT sfs_names \<and>
     sfs_events d = Created AEGIS_NAME 493 # map (\<lambda>(n, u). Created n 292) read_files @
       map (\<lambda>(n, ep). Created n 128) aectl_entries"

definition tree_down :: "sfs_state \<Rightarrow> bool" where
  "tree_down d \<longleftrightarrow> replay (sfs_events d) [] = Some [] \<and> list_all (\<lambda>p. p = DNULL) (sfs_pointers d)"

lemma live_modes_dom:
  "replay es live = Some live' \<Longrightarrow> distinct live \<Longrightarrow> dom m = set live \<Longrightarrow>
   dom (live_modes es m) = set live'"
proof (induction es live arbitrary: m rule: replay.induct)
  case (2 n mode es live)
  then have ok: "\<not> (n \<in> set live \<or> (n \<noteq> AEGIS_NAME \<and> AEGIS_NAME \<notin> set live))"
    and r: "replay es (live @ [n]) = Some live'" by (simp_all split: if_splits)
  have d: "dom (m(n \<mapsto> mode)) = set (live @ [n])"
    unfolding dom_fun_upd using "2.prems"(3) by auto
  have "distinct (live @ [n])" using ok "2.prems"(2) by simp
  from "2.IH" [OF ok r this d] show ?case by (simp add: fun_upd_def)
next
  case (3 n es live)
  have ok: "\<not> (n \<notin> set live \<or> (n = AEGIS_NAME \<and> live \<noteq> [AEGIS_NAME]))"
    using "3.prems"(1) by (auto split: if_splits)
  then have r: "replay es (remove1 n live) = Some live'" using "3.prems"(1) by (simp only: replay.simps if_False)
  have d: "dom (m(n := None)) = set (remove1 n live)"
    unfolding dom_fun_upd using "3.prems"(2,3) by auto
  have "distinct (remove1 n live)" using "3.prems"(2) by simp
  from "3.IH" [OF ok r this d] show ?case by (simp add: fun_upd_def)
qed simp

lemma entry_mode_down: "tree_down d \<Longrightarrow> entry_mode d name = None"
  using live_modes_dom [of "sfs_events d" "[]" "[]" Map.empty]
  unfolding tree_down_def entry_mode_def by (simp add: dom_def)

lemma entry_mode_up:
  assumes "tree_up d"
  shows "(name, ep) \<in> set aectl_entries \<Longrightarrow> entry_mode d name = Some 128"
    and "(name, u) \<in> set read_files \<Longrightarrow> entry_mode d name = Some 292"
proof -
  have e: "sfs_events d = Created AEGIS_NAME 493 # map (\<lambda>(n, u). Created n 292) read_files @
       map (\<lambda>(n, ep). Created n 128) aectl_entries"
    using assms unfolding tree_up_def by blast
  note [simp] = entry_mode_def e read_files_def aectl_entries_def AEGIS_NAME_def
  show "(name, ep) \<in> set aectl_entries \<Longrightarrow> entry_mode d name = Some 128"
    "(name, u) \<in> set read_files \<Longrightarrow> entry_mode d name = Some 292" by auto
qed

text \<open>The first failure in creation order, as the error the caller sees.\<close>

fun first_failure :: "sfs_fail \<Rightarrow> string list \<Rightarrow> errno option" where
  "first_failure fails [] = None"
| "first_failure fails (n # ns) =
     (case fails n of Some e \<Rightarrow> Some e | None \<Rightarrow> first_failure fails ns)"

lemma first_failure_None: "first_failure fails ns = None \<longleftrightarrow> (\<forall>n\<in>set ns. fails n = None)"
  by (induction ns) (auto split: option.split)

text \<open>What the exit function does to the history and to the pointers.\<close>

fun removal :: "dptr \<Rightarrow> sfs_event list" where
  "removal (DENT name) = [Removed name]"
| "removal _ = []"

lemma remove_simps [simp]:
  "sfs_events (remove_unless_err_or_null p d) = sfs_events d @ removal p"
  "aectl_dentries (remove_unless_err_or_null p d) = aectl_dentries d"
  "aegis_status_d (remove_unless_err_or_null p d) = aegis_status_d d"
  "aegis_stats_d (remove_unless_err_or_null p d) = aegis_stats_d d"
  "aegis_protected_procs_d (remove_unless_err_or_null p d) = aegis_protected_procs_d d"
  "aegis_protected_files_d (remove_unless_err_or_null p d) = aegis_protected_files_d d"
  "aegis_blocked_syscalls_d (remove_unless_err_or_null p d) = aegis_blocked_syscalls_d d"
  "aegis_dir (remove_unless_err_or_null p d) = aegis_dir d"
  by (simp_all add: remove_unless_err_or_null_def split: dptr.split)

lemma control_exit_frame [simp]:
  "aegis_status_d (control_exit_loop is d) = aegis_status_d d"
  "aegis_stats_d (control_exit_loop is d) = aegis_stats_d d"
  "aegis_protected_procs_d (control_exit_loop is d) = aegis_protected_procs_d d"
  "aegis_protected_files_d (control_exit_loop is d) = aegis_protected_files_d d"
  "aegis_blocked_syscalls_d (control_exit_loop is d) = aegis_blocked_syscalls_d d"
  "aegis_dir (control_exit_loop is d) = aegis_dir d"
  "length (aectl_dentries (control_exit_loop is d)) = length (aectl_dentries d)"
  by (induction "is" d rule: control_exit_loop.induct) (simp_all add: Let_def)

lemma control_exit_events:
  "distinct is \<Longrightarrow> sfs_events (control_exit_loop is d) =
     sfs_events d @ concat (map (\<lambda>i. removal (aectl_dentries d ! i)) is)"
proof (induction "is" d rule: control_exit_loop.induct)
  case (1 d)
  then show ?case by simp
next
  case (2 i "is" d)
  then have "map (\<lambda>j. removal ((aectl_dentries d)[i := DNULL] ! j)) is =
      map (\<lambda>j. removal (aectl_dentries d ! j)) is"
    by (intro map_cong refl arg_cong [where f = removal])
      (metis distinct.simps(2) nth_list_update_neq)
  with 2 show ?case by (simp add: Let_def)
qed

lemma control_exit_nulls:
  "j \<in> set is \<or> aectl_dentries d ! j = DNULL \<Longrightarrow> j < length (aectl_dentries d) \<Longrightarrow>
   aectl_dentries (control_exit_loop is d) ! j = DNULL"
proof (induction "is" d rule: control_exit_loop.induct)
  case (1 d)
  then show ?case by simp
next
  case (2 i "is" d)
  then show ?case by (cases "j = i") (auto simp: Let_def)
qed

lemma securityfs_exit_result:
  assumes "length (aectl_dentries d) = 6"
  shows "sfs_events (aegis_securityfs_exit d) =
      sfs_events d @ concat (map removal (aectl_dentries d)) @ removal (aegis_status_d d) @
      removal (aegis_stats_d d) @ removal (aegis_protected_procs_d d) @
      removal (aegis_protected_files_d d) @ removal (aegis_blocked_syscalls_d d) @
      removal (aegis_dir d)"
    and "list_all (\<lambda>p. p = DNULL) (sfs_pointers (aegis_securityfs_exit d))"
proof -
  have "map (\<lambda>i. removal (aectl_dentries d ! i)) [0..<6] = map removal (aectl_dentries d)"
    using assms map_nth [of "aectl_dentries d"] map_map [of removal "(!) (aectl_dentries d)" "[0..<6]"]
    by (simp add: comp_def)
  then show "sfs_events (aegis_securityfs_exit d) =
      sfs_events d @ concat (map removal (aectl_dentries d)) @ removal (aegis_status_d d) @
      removal (aegis_stats_d d) @ removal (aegis_protected_procs_d d) @
      removal (aegis_protected_files_d d) @ removal (aegis_blocked_syscalls_d d) @
      removal (aegis_dir d)"
    by (simp add: aegis_securityfs_exit_def aegis_control_exit_def Let_def control_exit_events)
  have "list_all (\<lambda>p. p = DNULL) (aectl_dentries (control_exit_loop [0..<6] d))"
    using assms control_exit_nulls [of _ "[0..<6]" d] by (auto simp: list_all_length)
  then show "list_all (\<lambda>p. p = DNULL) (sfs_pointers (aegis_securityfs_exit d))"
    by (simp add: aegis_securityfs_exit_def aegis_control_exit_def Let_def sfs_pointers_def)
qed

lemma exit_tree_down:
  assumes "length (aectl_dentries d) = 6"
    and "replay (sfs_events d @ concat (map removal (aectl_dentries d)) @ removal (aegis_status_d d) @
      removal (aegis_stats_d d) @ removal (aegis_protected_procs_d d) @
      removal (aegis_protected_files_d d) @ removal (aegis_blocked_syscalls_d d) @
      removal (aegis_dir d)) [] = Some []"
  shows "tree_down (aegis_securityfs_exit d)"
  using securityfs_exit_result [OF assms(1)] assms(2) by (simp add: tree_down_def)


lemma tree_down_printk [simp]: "tree_down (sfs_printk l m d) = tree_down d"
  by (simp add: tree_down_def sfs_printk_def sfs_pointers_def)

lemma six_null: "replicate 6 DNULL = [DNULL, DNULL, DNULL, DNULL, DNULL, DNULL]"
  by (simp add: numeral_eq_Suc)

lemmas init_eval =
  aegis_securityfs_init_def aegis_securityfs_err_def aegis_control_init_def sfs_create_def
  aectl_entries_def read_files_def sfs_statics_def six_null AEGIS_NAME_def sfs_names_def

text \<open>The first failure splits the names into those created and the one that was not.\<close>

lemma first_failure_Some:
  "first_failure fails ns = Some e \<Longrightarrow>
   \<exists>k<length ns. (\<forall>n\<in>set (take k ns). fails n = None) \<and> fails (ns ! k) = Some e"
proof (induction ns)
  case Nil
  then show ?case by simp
next
  case (Cons n ns)
  show ?case
  proof (cases "fails n")
    case None
    with Cons obtain k where "k < length ns" "\<forall>n\<in>set (take k ns). fails n = None"
      "fails (ns ! k) = Some e" by auto
    with None show ?thesis by (intro exI [of _ "Suc k"]) auto
  next
    case (Some x)
    with Cons.prems show ?thesis by (intro exI [of _ 0]) auto
  qed
qed

lemma tree_down_fresh:
  "sfs_events d = [] \<Longrightarrow> list_all (\<lambda>p. p = DNULL) (sfs_pointers d) \<Longrightarrow> tree_down d"
  by (simp add: tree_down_def)

lemma length_sfs_names: "length sfs_names = 12"
  by (simp add: sfs_names_def)

lemma init_fails_at:
  assumes "k \<in> {0, 1, 2, 3, 4, 5, 6, 7, 8, 9, 10, 11}"
    and "\<forall>n\<in>set (take k sfs_names). fails n = None" "fails (sfs_names ! k) = Some e"
  shows "fst (aegis_securityfs_init fails sfs_statics) = Inl e \<and>
    tree_down (snd (aegis_securityfs_init fails sfs_statics))"
  using assms
  by (elim insertE emptyE) (simp_all add: init_eval exit_tree_down tree_down_fresh sfs_pointers_def)

lemma init_fails:
  assumes "first_failure fails sfs_names = Some e"
  shows "fst (aegis_securityfs_init fails sfs_statics) = Inl e \<and>
   tree_down (snd (aegis_securityfs_init fails sfs_statics))"
proof -
  from first_failure_Some [OF assms] obtain k where k: "k < 12"
    "\<forall>n\<in>set (take k sfs_names). fails n = None" "fails (sfs_names ! k) = Some e"
    by (metis length_sfs_names)
  from k(1) have "k \<in> {0, 1, 2, 3, 4, 5, 6, 7, 8, 9, 10, 11}"
    unfolding insert_iff empty_iff by presburger
  from init_fails_at [OF this k(2,3)] show ?thesis .
qed

lemma init_succeeds:
  "\<forall>n\<in>set sfs_names. fails n = None \<Longrightarrow>
   fst (aegis_securityfs_init fails sfs_statics) = ret0 \<and>
   tree_up (snd (aegis_securityfs_init fails sfs_statics))"
  by (simp add: init_eval tree_up_def sfs_pointers_def sfs_printk_def)

text \<open>The tree after the late initcall: all of it, or nothing.\<close>

lemma late_init_tree:
  fixes fails
  defines "x \<equiv> aegis_securityfs_late_init fails sfs_statics"
  shows "if fst x = ret0 then tree_up (snd x) else tree_down (snd x)"
proof (cases "first_failure fails sfs_names")
  case None
  then have "\<forall>n\<in>set sfs_names. fails n = None" by (simp only: first_failure_None)
  from init_succeeds [OF this] show ?thesis
    by (auto simp: x_def aegis_securityfs_late_init_def split: prod.split)
next
  case (Some e)
  from init_fails [OF this] show ?thesis
    by (auto simp: x_def aegis_securityfs_late_init_def split: prod.split)
qed

lemma exit_after_up:
  assumes "tree_up d"
  shows "tree_down (aegis_securityfs_exit d)"
proof -
  have p: "aegis_dir d = DENT AEGIS_NAME" "aegis_status_d d = DENT ''status''"
    "aegis_stats_d d = DENT ''stats''" "aegis_protected_procs_d d = DENT ''protected_procs''"
    "aegis_protected_files_d d = DENT ''protected_files''"
    "aegis_blocked_syscalls_d d = DENT ''blocked_syscalls''"
    "aectl_dentries d = map (\<lambda>(n, ep). DENT n) aectl_entries"
    using assms
    by (simp_all add: tree_up_def sfs_pointers_def sfs_names_def aectl_entries_def AEGIS_NAME_def)
  have e: "sfs_events d = Created AEGIS_NAME 493 # map (\<lambda>(n, u). Created n 292) read_files @
       map (\<lambda>(n, ep). Created n 128) aectl_entries"
    using assms by (simp add: tree_up_def)
  show ?thesis
    by (rule exit_tree_down) (simp_all add: p e read_files_def aectl_entries_def AEGIS_NAME_def)
qed

section \<open>Reading the status files back\<close>

text \<open>The value of a hexadecimal numeral.\<close>

definition hex_val :: "char \<Rightarrow> nat" where
  "hex_val c = length (takeWhile (\<lambda>d. d \<noteq> c) ''0123456789abcdef'')"

definition hex_value :: "string \<Rightarrow> nat" where
  "hex_value ds = foldl (\<lambda>v c. 16 * v + hex_val c) 0 ds"

lemma digit_char_16: "d < 16 \<Longrightarrow> hex_val (digit_char d) = d \<and> LF \<noteq> digit_char d"
proof -
  have "\<forall>d\<in>set [0..<16]. hex_val (digit_char d) = d \<and> LF \<noteq> digit_char d"
    by (simp add: upt_rec digit_char_def hex_val_def)
  then show "d < 16 \<Longrightarrow> ?thesis" by simp
qed

lemma fmt_x_value: "hex_value (fmt_x n) = n \<and> LF \<notin> set (fmt_x n)"
proof (induction n rule: less_induct)
  case (less n)
  have rec: "fmt_x n = (if n < 16 then [digit_char n] else fmt_x (n div 16) @ [digit_char (n mod 16)])"
    unfolding fmt_x_def by (subst num_base.simps) simp
  show ?case
  proof (cases "n < 16")
    case True
    then show ?thesis using digit_char_16 [of n] by (simp add: rec hex_value_def)
  next
    case False
    with less [of "n div 16"] digit_char_16 [of "n mod 16"] show ?thesis
      by (simp add: rec hex_value_def)
  qed
qed

lemma hex_value_zeros: "hex_value (replicate k (CHR ''0'') @ ds) = hex_value ds"
  by (induction k) (simp_all add: hex_value_def hex_val_def)

lemma fmt_08x_value: "hex_value (fmt_08x v) = unat v" and fmt_08x_no_LF: "LF \<notin> set (fmt_08x v)"
  using fmt_x_value [of "unat v"] by (auto simp: fmt_08x_def pad_left_def hex_value_zeros)

text \<open>A text written line by line is read line by line.\<close>

lemma lines_of_lines:
  "txt = concat (map (\<lambda>l. l @ [LF]) ls) \<Longrightarrow> \<forall>l\<in>set ls. LF \<notin> set l \<Longrightarrow> lines_of [] txt = ls"
  using lines_of_concat [of ls id] by simp

lemma status_lines:
  "lines_of [] (aegis_status_show s) =
    [replicate 46 (CHR ''=''), ''  AEGIS v'' @ AEGIS_VERSION @ '' - Advanced Guardian for'',
     ''  Integrated System Security'', replicate 46 (CHR ''=''), [],
     ''  Status:        '' @ (if enabled (aegis_cfg s) then ''ACTIVE'' else ''DISABLED''),
     ''  Features:      0x'' @ fmt_08x (features (aegis_cfg s)), [],
     ''  Process Protection:   '' @ on_off (AEGIS_FEATURE_CHECK AEGIS_FEATURE_PROCESS_PROTECT s),
     ''  File Integrity:       '' @ on_off (AEGIS_FEATURE_CHECK AEGIS_FEATURE_FILE_INTEGRITY s),
     ''  Syscall Audit:        '' @ on_off (AEGIS_FEATURE_CHECK AEGIS_FEATURE_SYSCALL_AUDIT s),
     ''  Module Control:       '' @ on_off (AEGIS_FEATURE_CHECK AEGIS_FEATURE_MODULE_CONTROL s),
     ''  Ptrace Restrict:      '' @ on_off (AEGIS_FEATURE_CHECK AEGIS_FEATURE_PTRACE_RESTRICT s), [],
     ''  Ptrace All Restrict:  '' @ on_off (ptrace_restrict_all (aegis_cfg s)),
     ''  File Integrity Enf:   '' @ on_off (file_integrity_enforce (aegis_cfg s)),
     ''  Module Loading Deny:  '' @ on_off (module_loading_denied (aegis_cfg s)), []]"
  by (rule lines_of_lines)
    (simp_all add: aegis_status_show_def on_off_def fmt_08x_no_LF AEGIS_VERSION_def)

lemma stats_lines:
  "lines_of [] (aegis_stats_show s) =
    [''AEGIS Event Statistics:'', ''======================='',
     ''  Ptrace blocked:       '' @ fmt_lld (ptrace_blocked (aegis_cfg s)),
     ''  File violations:      '' @ fmt_lld (file_violations (aegis_cfg s)),
     ''  Syscall violations:   '' @ fmt_lld (syscall_violations (aegis_cfg s)),
     ''  Module violations:    '' @ fmt_lld (module_violations (aegis_cfg s)),
     ''  Total events:         '' @ fmt_lld (total_events (aegis_cfg s)), []]"
  by (rule lines_of_lines) (simp_all add: aegis_stats_show_def fmt_lld_def fmt_d_no_LF)

text \<open>What a program reading the two files makes of them: the text after the label of a line.\<close>

definition after_label :: "nat \<Rightarrow> nat \<Rightarrow> string \<Rightarrow> string" where
  "after_label w i txt = drop w (lines_of [] txt ! i)"

definition switched_on :: "nat list \<Rightarrow> string \<Rightarrow> bool list" where
  "switched_on is txt = map (\<lambda>i. after_label 24 i txt = ''ON'') is"

definition read_counters :: "string \<Rightarrow> int option list" where
  "read_counters txt = map (\<lambda>i. scan_d (after_label 24 i txt)) [2, 3, 4, 5, 6]"

text \<open>The lines of the status file that carry a value.\<close>

lemma status_head_values:
  "after_label 17 5 (aegis_status_show s) = (if enabled (aegis_cfg s) then ''ACTIVE'' else ''DISABLED'')"
  "after_label 19 6 (aegis_status_show s) = fmt_08x (features (aegis_cfg s))"
  by (simp_all add: after_label_def status_lines)

lemma status_feature_values:
  "after_label 24 8 (aegis_status_show s) = on_off (AEGIS_FEATURE_CHECK AEGIS_FEATURE_PROCESS_PROTECT s)"
  "after_label 24 9 (aegis_status_show s) = on_off (AEGIS_FEATURE_CHECK AEGIS_FEATURE_FILE_INTEGRITY s)"
  "after_label 24 10 (aegis_status_show s) = on_off (AEGIS_FEATURE_CHECK AEGIS_FEATURE_SYSCALL_AUDIT s)"
  "after_label 24 11 (aegis_status_show s) = on_off (AEGIS_FEATURE_CHECK AEGIS_FEATURE_MODULE_CONTROL s)"
  "after_label 24 12 (aegis_status_show s) = on_off (AEGIS_FEATURE_CHECK AEGIS_FEATURE_PTRACE_RESTRICT s)"
  by (simp_all add: after_label_def status_lines)

lemma status_switch_values:
  "after_label 24 14 (aegis_status_show s) = on_off (ptrace_restrict_all (aegis_cfg s))"
  "after_label 24 15 (aegis_status_show s) = on_off (file_integrity_enforce (aegis_cfg s))"
  "after_label 24 16 (aegis_status_show s) = on_off (module_loading_denied (aegis_cfg s))"
  by (simp_all add: after_label_def status_lines)

section \<open>Properties\<close>

text \<open>
  C21: Creating the securityfs tree is all or nothing. Whichever of the twelve creations fails,
  the first failure is the result, everything created is removed again (children before the
  directory, nothing twice) and every pointer is \<open>NULL\<close>; when none fails the directory, the
  five read files (mode 0444) and the six write endpoints (mode 0200) are there, and the exit
  function removes them all.
\<close>

theorem securityfs_init_all_or_nothing:
  "case first_failure fails sfs_names of
     None \<Rightarrow>
       fst (aegis_securityfs_late_init fails sfs_statics) = ret0 \<and>
       tree_up (snd (aegis_securityfs_late_init fails sfs_statics)) \<and>
       tree_down (aegis_securityfs_exit (snd (aegis_securityfs_late_init fails sfs_statics)))
   | Some e \<Rightarrow>
       fst (aegis_securityfs_late_init fails sfs_statics) = Inl e \<and>
       tree_down (snd (aegis_securityfs_late_init fails sfs_statics))"
proof (cases "first_failure fails sfs_names")
  case None
  then have "\<forall>n\<in>set sfs_names. fails n = None" by (simp only: first_failure_None)
  from init_succeeds [OF this] None show ?thesis
    by (auto simp: exit_after_up aegis_securityfs_late_init_def split: prod.split sum.split)
next
  case (Some e)
  from init_fails [OF this] Some show ?thesis
    by (auto simp: aegis_securityfs_late_init_def split: prod.split sum.split)
qed

text \<open>
  C36: The status files tell the truth. A program that reads \<open>status\<close> back gets the master
  switch, the exact feature mask, whether each of the five features is in force and the three
  restriction switches; one that reads \<open>stats\<close> back gets the five counters as signed 64-bit
  numbers. No value of any of them is printed as another.
\<close>

theorem status_files_faithful:
  "(after_label 17 5 (aegis_status_show s) = ''ACTIVE'') = enabled (aegis_cfg s) \<and>
   hex_value (after_label 19 6 (aegis_status_show s)) = unat (features (aegis_cfg s)) \<and>
   switched_on [8, 9, 10, 11, 12] (aegis_status_show s) =
     map (\<lambda>f. AEGIS_FEATURE_CHECK f s)
       [AEGIS_FEATURE_PROCESS_PROTECT, AEGIS_FEATURE_FILE_INTEGRITY, AEGIS_FEATURE_SYSCALL_AUDIT,
        AEGIS_FEATURE_MODULE_CONTROL, AEGIS_FEATURE_PTRACE_RESTRICT] \<and>
   switched_on [14, 15, 16] (aegis_status_show s) =
     [ptrace_restrict_all (aegis_cfg s), file_integrity_enforce (aegis_cfg s),
      module_loading_denied (aegis_cfg s)] \<and>
   read_counters (aegis_stats_show s) =
     map (\<lambda>c. Some (sint c))
       [ptrace_blocked (aegis_cfg s), file_violations (aegis_cfg s), syscall_violations (aegis_cfg s),
        module_violations (aegis_cfg s), total_events (aegis_cfg s)]"
proof (intro conjI)
  show "read_counters (aegis_stats_show s) =
     map (\<lambda>c. Some (sint c))
       [ptrace_blocked (aegis_cfg s), file_violations (aegis_cfg s), syscall_violations (aegis_cfg s),
        module_violations (aegis_cfg s), total_events (aegis_cfg s)]"
    by (simp add: read_counters_def after_label_def stats_lines fmt_lld_def scan_d_fmt_d)
qed (simp_all add: switched_on_def status_head_values status_feature_values status_switch_values
  fmt_08x_value on_off_def)

end
