(* ===== verification/Aegisctl_Kernel.thy ===== *)
theory Aegisctl_Kernel
  imports Aegisctl Aegis_System Aegis_Securityfs
begin

text \<open>
  The control tool on the kernel. The locale \<open>control_tree\<close> states what the tool relies on of
  the kernel's securityfs files; the kernel model, the files of the securityfs directory as the
  module created them and the sysctl knobs, with their modes, over the state of the module, is
  its instance.
\<close>

section \<open>The tool and the kernel\<close>

text \<open>The command and the file name that belong to each endpoint.\<close>

fun endpoint_cmd :: "endpoint \<Rightarrow> string" where
  "endpoint_cmd Files_add = ''file-add''"
| "endpoint_cmd Files_del = ''file-del''"
| "endpoint_cmd Procs_add = ''proc-add''"
| "endpoint_cmd Procs_del = ''proc-del''"
| "endpoint_cmd Syscalls_add = ''syscall-add''"
| "endpoint_cmd Syscalls_del = ''syscall-del''"

fun endpoint_file :: "endpoint \<Rightarrow> string" where
  "endpoint_file Files_add = ''protected_files_add''"
| "endpoint_file Files_del = ''protected_files_del''"
| "endpoint_file Procs_add = ''protected_procs_add''"
| "endpoint_file Procs_del = ''protected_procs_del''"
| "endpoint_file Syscalls_add = ''blocked_syscalls_add''"
| "endpoint_file Syscalls_del = ''blocked_syscalls_del''"

lemma endpoint_file_entry: "(endpoint_file ep, ep) \<in> set aectl_entries"
  by (cases ep) (simp_all add: aectl_entries_def)

text \<open>
  What the tool relies on: opening an endpoint for writing fails and changes nothing when the
  endpoint is not there or the caller may not write to it; otherwise it succeeds, and a write to
  that descriptor is the endpoint's write operation on the module's state with the caller's
  rights; closing changes nothing.
\<close>

locale control_tree =
  fixes os :: "'w os"
    and module_state :: "'w \<Rightarrow> aegis_state"
    and caller :: "'w \<Rightarrow> ('d, 'p) ctl_env"
    and writable :: "'w \<Rightarrow> endpoint \<Rightarrow> bool"
  assumes open_write: "writable w ep \<Longrightarrow> \<exists>fd w'. os_open os (AEGIS_SECURITYFS @ ''/'' @ endpoint_file ep) O_WRONLY w =
      (Inr fd, w') \<and>
      map_option (\<lambda>x. (fst x, module_state (snd x))) (os_write os fd bytes w') =
        aectl_write (caller w) ep bytes (length bytes) (module_state w)"
    and open_refused: "\<not> writable w ep \<Longrightarrow>
      \<exists>e w'. os_open os (AEGIS_SECURITYFS @ ''/'' @ endpoint_file ep) O_WRONLY w = (Inl e, w') \<and>
        module_state w' = module_state w"
    and close: "module_state (os_close os fd w) = module_state w"
begin

lemma secfs_path: "take 511 (AEGIS_SECURITYFS @ ''/'' @ endpoint_file ep) = AEGIS_SECURITYFS @ ''/'' @ endpoint_file ep"
  by (cases ep) (simp_all add: AEGIS_SECURITYFS_def)

lemma write_secfs_endpoint:
  "writable w ep \<Longrightarrow> map_option (\<lambda>x. (fst x = 0, module_state (fst (snd x)))) (write_secfs os (endpoint_file ep) bytes (w, out)) =
   map_option (\<lambda>x. (\<exists>n. fst x = Inr n, snd x))
     (aectl_write (caller w) ep bytes (length bytes) (module_state w))"
proof -
  assume "writable w ep"
  then obtain fd w' where o: "os_open os (AEGIS_SECURITYFS @ ''/'' @ endpoint_file ep) O_WRONLY w = (Inr fd, w')"
    and wr: "map_option (\<lambda>x. (fst x, module_state (snd x))) (os_write os fd bytes w') =
        aectl_write (caller w) ep bytes (length bytes) (module_state w)"
    using open_write [of w ep bytes] by blast
  show ?thesis
    unfolding write_secfs_def Let_def secfs_path prod.case o wr [symmetric]
    by (auto simp: close split: option.split sum.split)
qed

lemma write_secfs_refused:
  "\<not> writable w ep \<Longrightarrow>
   map_option (\<lambda>x. (fst x = 0, module_state (fst (snd x)))) (write_secfs os (endpoint_file ep) bytes (w, out)) =
     Some (False, module_state w)"
proof -
  assume "\<not> writable w ep"
  then obtain e w' where o: "os_open os (AEGIS_SECURITYFS @ ''/'' @ endpoint_file ep) O_WRONLY w = (Inl e, w')"
    and "module_state w' = module_state w"
    using open_refused by blast
  then show ?thesis
    unfolding write_secfs_def Let_def secfs_path prod.case o by simp
qed

text \<open>
  A write command is the write of its argument to its endpoint, where the caller may write to it;
  further arguments are unused.
\<close>

lemma main_endpoint:
  "map_option (\<lambda>x. (fst x, module_state (fst (snd x))))
     (aegisctl_main os (prog # endpoint_cmd ep # arg # rest) (w, out)) =
   (if writable w ep
    then map_option (\<lambda>x. (0, snd x)) (aectl_write (caller w) ep arg (length arg) (module_state w))
    else Some (0, module_state w))"
proof -
  have "aegisctl_main os (prog # endpoint_cmd ep # arg # rest) (w, out) =
      map_option (\<lambda>x. (0, snd x)) (write_secfs os (endpoint_file ep) arg (w, out))"
    by (cases ep) (simp_all add: aegisctl_main_def cmd_write_def write_cmds_def option.map_comp comp_def)
  moreover have "map_option (\<lambda>x. (0 :: int, module_state (fst (snd x))))
        (write_secfs os (endpoint_file ep) arg (w, out)) =
      (if writable w ep
       then map_option (\<lambda>x. (0, snd x)) (aectl_write (caller w) ep arg (length arg) (module_state w))
       else Some (0, module_state w))"
    using arg_cong [OF write_secfs_endpoint [of w ep arg out],
        of "map_option (\<lambda>x. (0 :: int, snd x))"]
      arg_cong [OF write_secfs_refused [of w ep arg out], of "map_option (\<lambda>x. (0 :: int, snd x))"]
    by (simp add: option.map_comp comp_def)
  ultimately show ?thesis
    by (simp add: option.map_comp comp_def)
qed

end


section \<open>The kernel model as the tool's operating system\<close>

text \<open>
  The world is the module's state and its securityfs tree (with the modes its files were created
  with), the caller's rights (the control environment for endpoint writes, and whether the caller
  is root), the kernel's \<open>proc_dointvec\<close> and the open files by descriptor. A securityfs path
  resolves to a live entry of the tree, a sysctl path to its knob once the table is registered. The
  files belong to root: root may open every file, others one whose mode has the bit for others
  (4 to read, 2 to write). The sysctl files have mode 0644 (420).
\<close>

datatype knode = Secfs string | Sysctl knob

record ('d, 'p) kworld =
  kw_state :: aegis_state
  kw_sfs :: sfs_state
  kw_caller :: "('d, 'p) ctl_env"
  kw_root :: bool
  kw_dointvec :: dointvec
  kw_files :: "knode list"

definition may_open :: "bool \<Rightarrow> nat \<Rightarrow> open_mode \<Rightarrow> bool" where
  "may_open root perm mode \<longleftrightarrow>
     root \<or> (case mode of O_RDONLY \<Rightarrow> odd (perm div 4) | O_WRONLY \<Rightarrow> odd (perm div 2))"

definition kernel_lookup :: "string \<Rightarrow> open_mode \<Rightarrow> ('d, 'p) kworld \<Rightarrow> errno + knode" where
  "kernel_lookup path mode w =
     (if take (Suc (length AEGIS_SECURITYFS)) path = AEGIS_SECURITYFS @ ''/'' then
        let name = drop (Suc (length AEGIS_SECURITYFS)) path in
        (case (if name = AEGIS_NAME then None else entry_mode (kw_sfs w) name) of
           None \<Rightarrow> Inl ENOENT
         | Some perm \<Rightarrow> if may_open (kw_root w) perm mode then Inr (Secfs name) else Inl EACCES)
      else if take (Suc (length AEGIS_SYSCTL)) path = AEGIS_SYSCTL @ ''/'' \<and>
              aegis_sysctl_header (kw_state w) then
        (case map_of aegis_sysctl_table (drop (Suc (length AEGIS_SYSCTL)) path) of
           None \<Rightarrow> Inl ENOENT
         | Some k \<Rightarrow> if may_open (kw_root w) 420 mode then Inr (Sysctl k) else Inl EACCES)
      else Inl ENOENT)"

definition kernel_open ::
    "string \<Rightarrow> open_mode \<Rightarrow> ('d, 'p) kworld \<Rightarrow> (errno + nat) \<times> ('d, 'p) kworld" where
  "kernel_open path mode w =
     (case kernel_lookup path mode w of
        Inl e \<Rightarrow> (Inl e, w)
      | Inr node \<Rightarrow> (Inr (length (kw_files w)), w\<lparr>kw_files := kw_files w @ [node]\<rparr>))"

definition kernel_read ::
    "nat \<Rightarrow> nat \<Rightarrow> ('d, 'p) kworld \<Rightarrow> (errno + string) \<times> ('d, 'p) kworld" where
  "kernel_read fd n w =
     (if fd < length (kw_files w)
      then (case kw_files w ! fd of
              Secfs name \<Rightarrow>
                (case read_show name (kw_state w) of
                   None \<Rightarrow> (Inl EINVAL, w)
                 | Some txt \<Rightarrow> (Inr (take n txt), w))
            | Sysctl k \<Rightarrow> (Inr (take n (fmt_d (knob_mirror k (kw_state w)) @ [LF])), w))
      else (Inl EINVAL, w))"

definition kernel_write ::
    "nat \<Rightarrow> string \<Rightarrow> ('d, 'p) kworld \<Rightarrow> ((errno + nat) \<times> ('d, 'p) kworld) option" where
  "kernel_write fd bytes w =
     (if fd < length (kw_files w)
      then (case kw_files w ! fd of
              Secfs name \<Rightarrow>
                (case map_of aectl_entries name of
                   None \<Rightarrow> Some (Inl EINVAL, w)
                 | Some ep \<Rightarrow>
                     map_option (\<lambda>(r, t). (r, w\<lparr>kw_state := t\<rparr>))
                       (aectl_write (kw_caller w) ep bytes (length bytes) (kw_state w)))
            | Sysctl k \<Rightarrow>
                (case knob_handler k (kw_dointvec w) True bytes (kw_state w) of
                   (r, t) \<Rightarrow> Some (if r = ret0 then Inr (length bytes) else r, w\<lparr>kw_state := t\<rparr>)))
      else Some (Inl EINVAL, w))"

definition kernel_os :: "('d, 'p) kworld os" where
  "kernel_os =
     \<lparr>os_open = kernel_open, os_read = kernel_read, os_write = kernel_write,
      os_close = (\<lambda>fd w. w),
      os_klogctl = (\<lambda>n w. (Inr (take n (concat (map snd (klog (kw_state w))))), w)),
      os_malloc = True, os_strerror = (\<lambda>e. fmt_d (errno_code e))\<rparr>"

text \<open>Whether the caller can write to an endpoint.\<close>

definition endpoint_writable :: "('d, 'p) kworld \<Rightarrow> endpoint \<Rightarrow> bool" where
  "endpoint_writable w ep \<longleftrightarrow>
     (case entry_mode (kw_sfs w) (endpoint_file ep) of
        None \<Rightarrow> False | Some perm \<Rightarrow> may_open (kw_root w) perm O_WRONLY)"

lemma kernel_open_endpoint:
  "endpoint_writable w ep \<Longrightarrow> kernel_open (AEGIS_SECURITYFS @ ''/'' @ endpoint_file ep) O_WRONLY w =
     (Inr (length (kw_files w)), w\<lparr>kw_files := kw_files w @ [Secfs (endpoint_file ep)]\<rparr>)"
  "\<not> endpoint_writable w ep \<Longrightarrow>
   \<exists>e. kernel_open (AEGIS_SECURITYFS @ ''/'' @ endpoint_file ep) O_WRONLY w = (Inl e, w)"
proof -
  have "endpoint_file ep \<noteq> AEGIS_NAME" by (cases ep) (simp_all add: AEGIS_NAME_def)
  then show "endpoint_writable w ep \<Longrightarrow>
      kernel_open (AEGIS_SECURITYFS @ ''/'' @ endpoint_file ep) O_WRONLY w =
        (Inr (length (kw_files w)), w\<lparr>kw_files := kw_files w @ [Secfs (endpoint_file ep)]\<rparr>)"
    "\<not> endpoint_writable w ep \<Longrightarrow>
      \<exists>e. kernel_open (AEGIS_SECURITYFS @ ''/'' @ endpoint_file ep) O_WRONLY w = (Inl e, w)"
    by (simp_all add: kernel_open_def kernel_lookup_def endpoint_writable_def split: option.splits)
qed

lemma endpoint_writable_up:
  "tree_up (kw_sfs w) \<Longrightarrow> endpoint_writable w ep \<longleftrightarrow> kw_root w"
  "tree_down (kw_sfs w) \<Longrightarrow> \<not> endpoint_writable w ep"
  using entry_mode_up(1) [OF _ endpoint_file_entry] entry_mode_down
  by (simp_all add: endpoint_writable_def may_open_def)

lemma kernel_open_enabled:
  "kernel_open (AEGIS_SYSCTL @ ''/enabled'') O_WRONLY w =
     (if \<not> aegis_sysctl_header (kw_state w) then (Inl ENOENT, w)
      else if \<not> kw_root w then (Inl EACCES, w)
      else (Inr (length (kw_files w)), w\<lparr>kw_files := kw_files w @ [Sysctl K_enabled]\<rparr>))"
  by (simp add: kernel_open_def kernel_lookup_def AEGIS_SECURITYFS_def AEGIS_SYSCTL_def
      aegis_sysctl_table_def may_open_def)

lemma map_of_endpoint: "map_of aectl_entries (endpoint_file ep) = Some ep"
  by (cases ep) (simp_all add: aectl_entries_def)

interpretation kt: control_tree "kernel_os :: ('d, 'p) kworld os" kw_state kw_caller
  endpoint_writable
proof (unfold_locales, goal_cases)
  case (1 w ep bytes)
  let ?w = "w\<lparr>kw_files := kw_files w @ [Secfs (endpoint_file ep)]\<rparr>"
  have "os_open kernel_os (AEGIS_SECURITYFS @ ''/'' @ endpoint_file ep) O_WRONLY w =
      (Inr (length (kw_files w)), ?w)"
    using 1 by (simp only: kernel_os_def os.simps kernel_open_endpoint)
  moreover have "map_option (\<lambda>x. (fst x, kw_state (snd x)))
      (os_write kernel_os (length (kw_files w)) bytes ?w) =
      aectl_write (kw_caller w) ep bytes (length bytes) (kw_state w)"
    by (simp add: kernel_os_def kernel_write_def map_of_endpoint option.map_comp comp_def
        case_prod_beta option.map_ident)
  ultimately show ?case by blast
next
  case (2 w ep)
  from kernel_open_endpoint(2) [OF this] show ?case by (auto simp: kernel_os_def)
next
  case (3 fd w)
  then show ?case by (simp add: kernel_os_def)
qed

text \<open>
  The two switching commands on the kernel model: a write to the master switch with the caller's
  rights, and nothing when the sysctl table is not there or the caller is not root.
\<close>

lemma write_enabled:
  "map_option (\<lambda>x. kw_state (fst (snd x))) (write_sysctl kernel_os ''enabled'' v (w, out)) =
     Some (if aegis_sysctl_header (kw_state w) \<and> kw_root w
           then snd (knob_handler K_enabled (kw_dointvec w) True v (kw_state w)) else kw_state w)"
  "write_sysctl kernel_os ''enabled'' v (w, out) = Some x \<Longrightarrow>
     kw_root (fst (snd x)) = kw_root w \<and> kw_dointvec (fst (snd x)) = kw_dointvec w"
proof -
  have path: "take 255 (AEGIS_SYSCTL @ ''/'' @ ''enabled'') = AEGIS_SYSCTL @ ''/enabled''"
    by (simp add: AEGIS_SYSCTL_def)
  note [simp] = write_sysctl_def Let_def path [simplified] kernel_os_def kernel_open_enabled kernel_write_def
  show "map_option (\<lambda>x. kw_state (fst (snd x))) (write_sysctl kernel_os ''enabled'' v (w, out)) =
     Some (if aegis_sysctl_header (kw_state w) \<and> kw_root w
           then snd (knob_handler K_enabled (kw_dointvec w) True v (kw_state w)) else kw_state w)"
    by (auto split: prod.split sum.split simp del: knob_handler.simps)
  show "write_sysctl kernel_os ''enabled'' v (w, out) = Some x \<Longrightarrow>
     kw_root (fst (snd x)) = kw_root w \<and> kw_dointvec (fst (snd x)) = kw_dointvec w"
    by (auto split: prod.splits sum.splits if_splits simp del: knob_handler.simps)
qed

lemma write_enabled_returns:
  "\<exists>w' out' r. write_sysctl kernel_os ''enabled'' v (w, out) = Some (r, w', out')"
proof -
  have "write_sysctl kernel_os ''enabled'' v (w, out) \<noteq> None"
    using write_enabled(1) [of v w out] by (cases "write_sysctl kernel_os ''enabled'' v (w, out)") auto
  then show ?thesis by auto
qed

section \<open>Properties\<close>

definition demo_world :: "(8 word list, unit) kworld" where
  "demo_world = \<lparr>kw_state = aegis_statics,
     kw_sfs = snd (aegis_securityfs_late_init (\<lambda>_. None) sfs_statics), kw_caller = demo_ctl True, kw_root = True,
     kw_dointvec = demo_dointvec, kw_files = []\<rparr>"


lemma demo_tree: "aegis_securityfs_late_init (\<lambda>_. None) sfs_statics = (ret0, kw_sfs demo_world)"
  using init_succeeds [of "\<lambda>_. None"]
  by (cases "aegis_securityfs_init (\<lambda>_. None) sfs_statics")
    (simp add: demo_world_def aegis_securityfs_late_init_def)


text \<open>
  The pid argument of \<open>proc-add\<close> is dropped. Asking the tool to protect one process by
  name and pid protects, for a root caller with the capability, the name with pid 0: every process of that
  name, and not that pid under another name.
\<close>

lemma aegisctl_proc_add_drops_pid:
  fixes w :: "('d, 'p) kworld"
  assumes "capable_mac_admin (kw_caller w)" and "comm_word c" and "tree_up (kw_sfs w)" "kw_root w"
  shows "map_option (\<lambda>x. kw_state (fst (snd x)))
      (aegisctl_main kernel_os [prog, ''proc-add'', c, pid] (w, out)) =
    Some (snd (aegis_protect_process_add (ctl_entry_kmalloc (kw_caller w)) (Some c) 0 (kw_state w)))"
proof -
  have auth: "aectl_authorized (kw_caller w)" using assms(1) by (simp add: aectl_authorized_def)
  have c: "plain_text c" "length (c @ []) < AEGIS_PATH_LEN"
    using assms(2) plain_no_space [of c] by (simp_all add: comm_word_def AEGIS_PATH_LEN_def)
  have "aectl_write (kw_caller w) Procs_add c (length c) (kw_state w) =
      Some (case aegis_protect_process_add (ctl_entry_kmalloc (kw_caller w)) (Some c) 0 (kw_state w) of
         (r, t) \<Rightarrow> (if r = ret0 then Inr (length c) else r, t))"
    using procs_write_text(1) [OF auth c(1) disjI1 [OF refl] c(2), of 0 c 0 "kw_state w",
        unfolded append_Nil2]
      sscanf_comm [OF assms(2)] by simp
  then have "map_option (\<lambda>x. (fst x, kw_state (fst (snd x))))
      (aegisctl_main kernel_os [prog, ''proc-add'', c, pid] (w, out)) =
    Some (0, snd (aegis_protect_process_add (ctl_entry_kmalloc (kw_caller w)) (Some c) 0 (kw_state w)))"
    using kt.main_endpoint [of prog Procs_add c "[pid]" w out] endpoint_writable_up(1) [of w Procs_add]
      assms(3,4) by (simp add: case_prod_beta)
  then show ?thesis by (auto simp: map_option_eq_Some)
qed


text \<open>A world whose kernel log holds one event.\<close>

definition demo_log_world :: "(8 word list, unit) kworld" where
  "demo_log_world =
     demo_world\<lparr>kw_state := aegis_statics\<lparr>klog := [(KERN_WARNING, ''aegis: x'' @ [LF])]\<rparr>\<rparr>"

lemma demo_log_read:
  "os_klogctl kernel_os (AUDIT_BUF_SIZE - 1) demo_log_world = (Inr (''aegis: x'' @ [LF]), demo_log_world)"
  by (simp add: kernel_os_def demo_log_world_def AUDIT_BUF_SIZE_def)

lemma demo_log_lines:
  "cstr (''aegis: x'' @ [LF]) = ''aegis: x'' @ [LF]"
  "count_tags (''aegis: x'' @ [LF]) = 1" "tagged (strtok_lines (''aegis: x'' @ [LF])) = [''aegis: x'']"
  by (simp_all add: cstr_Cons count_tags_occurrences audit_tag_def strtok_lines.simps)


end
