(* ===== verification/Aegisctl_Listings.thy ===== *)
theory Aegisctl_Listings
  imports Aegisctl_Kernel
begin

text \<open>
  The listing commands of the tool on the kernel model. \<open>print_file\<close> reads a file once, into a
  buffer of 4096 bytes: this theory bounds the length of the five texts the kernel shows, and so
  says which of them always fit.
\<close>

section \<open>Lengths and characters of the printed numbers\<close>

lemma fmt_x_rec: "fmt_x n = (if n < 16 then [digit_char n] else fmt_x (n div 16) @ [digit_char (n mod 16)])"
  unfolding fmt_x_def by (subst num_base.simps) simp

lemma length_fmt_x: "n < 16 ^ Suc k \<Longrightarrow> length (fmt_x n) \<le> Suc k"
proof (induction k arbitrary: n)
  case 0
  then show ?case by (simp add: fmt_x_rec [of n])
next
  case (Suc k)
  show ?case
  proof (cases "n < 16")
    case False
    have "n div 16 < 16 ^ Suc k" using Suc.prems by (simp add: less_mult_imp_div_less)
    from Suc.IH [OF this] False show ?thesis by (simp add: fmt_x_rec [of n])
  qed (simp add: fmt_x_rec [of n])
qed

lemma length_fmt_08x: "length (fmt_08x v) = 8"
  using length_fmt_x [of "unat v" 7] unsigned_less [where 'a=nat, of v] by (simp add: fmt_08x_def pad_left_def)

lemma length_fmt_02x: "length (fmt_02x b) = 2"
  using length_fmt_x [of "unat b" 1] unsigned_less [where 'a=nat, of b] by (simp add: fmt_02x_def pad_left_def)

lemma length_fmt_lld: "length (fmt_lld c) \<le> 20"
proof -
  have "- (2 ^ 63) \<le> sint c \<and> sint c < 2 ^ 63"
    using sint_greater_eq [of c] sint_less [of c] by simp
  then have "nat (sint c) < 10 ^ Suc 18" "nat (- sint c) < 10 ^ Suc 18" by auto
  from this [THEN length_fmt_u] show ?thesis by (simp add: fmt_lld_def fmt_d_def)
qed

lemma digit_char_NUL: "d < 16 \<Longrightarrow> NUL \<noteq> digit_char d"
proof -
  have "\<forall>d\<in>set [0..<16]. NUL \<noteq> digit_char d" by (simp add: upt_rec digit_char_def)
  then show "d < 16 \<Longrightarrow> ?thesis" by simp
qed

lemma fmt_x_NUL: "NUL \<notin> set (fmt_x n)"
proof (induction n rule: less_induct)
  case (less n)
  show ?case using less [of "n div 16"] digit_char_NUL [of n] digit_char_NUL [of "n mod 16"]
    by (cases "n < 16") (simp_all add: fmt_x_rec [of n])
qed

lemma numbers_NUL [simp]:
  "NUL \<notin> set (fmt_d i)" "NUL \<notin> set (fmt_08x v)" "NUL \<notin> set (fmt_02x b)" "NUL \<notin> set (fmt_lld c)"
  using fmt_d_no_space_NUL fmt_x_NUL by (auto simp: fmt_08x_def fmt_02x_def pad_left_def fmt_lld_def)

lemma pads [simp]:
  "length (pad_right k xs) = max k (length xs)" "length (pad_left c k xs) = max k (length xs)"
  "NUL \<in> set (pad_right k xs) \<longleftrightarrow> NUL \<in> set xs" "NUL \<in> set (pad_left (CHR '' '') k xs) \<longleftrightarrow> NUL \<in> set xs"
  by (auto simp: pad_right_def pad_left_def)

lemma length_rows:
  "\<forall>x\<in>set xs. length (f x) \<le> k \<Longrightarrow> length (concat (map f xs)) \<le> k * length xs"
  "\<forall>x\<in>set xs. k \<le> length (f x) \<Longrightarrow> k * length xs \<le> length (concat (map f xs))"
  by (induction xs) auto


section \<open>The texts\<close>

lemma shown_NUL:
  "NUL \<notin> set (aegis_status_show s)" "NUL \<notin> set (aegis_stats_show s)"
  "NUL \<notin> set (aegis_protected_process_show s)" "NUL \<notin> set (aegis_protected_file_show s)"
  "NUL \<notin> set (aegis_blocked_syscall_show s)"
  by (auto simp: aegis_status_show_def aegis_stats_show_def aegis_protected_process_show_def
      aegis_protected_file_show_def aegis_blocked_syscall_show_def on_off_def AEGIS_VERSION_def
      file_hash_str_def)

lemma status_fits: "length (aegis_status_show s) < MAX_BUF" "length (aegis_stats_show s) < MAX_BUF"
proof -
  have on_off: "length (on_off b) \<le> 3" for b by (simp add: on_off_def)
  show "length (aegis_status_show s) < MAX_BUF"
    using on_off [of "AEGIS_FEATURE_CHECK AEGIS_FEATURE_PROCESS_PROTECT s"]
      on_off [of "AEGIS_FEATURE_CHECK AEGIS_FEATURE_FILE_INTEGRITY s"]
      on_off [of "AEGIS_FEATURE_CHECK AEGIS_FEATURE_SYSCALL_AUDIT s"]
      on_off [of "AEGIS_FEATURE_CHECK AEGIS_FEATURE_MODULE_CONTROL s"]
      on_off [of "AEGIS_FEATURE_CHECK AEGIS_FEATURE_PTRACE_RESTRICT s"]
      on_off [of "ptrace_restrict_all (aegis_cfg s)"]
      on_off [of "file_integrity_enforce (aegis_cfg s)"]
      on_off [of "module_loading_denied (aegis_cfg s)"]
    by (simp add: aegis_status_show_def MAX_BUF_def AEGIS_VERSION_def length_fmt_08x)
  show "length (aegis_stats_show s) < MAX_BUF"
    using length_fmt_lld [of "ptrace_blocked (aegis_cfg s)"] length_fmt_lld [of "file_violations (aegis_cfg s)"]
      length_fmt_lld [of "syscall_violations (aegis_cfg s)"] length_fmt_lld [of "module_violations (aegis_cfg s)"]
      length_fmt_lld [of "total_events (aegis_cfg s)"]
    by (simp add: aegis_stats_show_def MAX_BUF_def)
qed

lemma procs_fit:
  assumes "procs_wf s" "list_all (\<lambda>e. int32 (pp_pid e)) (protected_procs s)"
  shows "length (aegis_protected_process_show s) < MAX_BUF"
proof -
  let ?row = "\<lambda>e. pad_right 20 (cstr (pp_comm e)) @ '' '' @ pad_left (CHR '' '') 8 (fmt_d (pp_pid e)) @ [LF]"
  have "length (?row e) \<le> 33" if "e \<in> set (protected_procs s)" for e
    using assms that length_fmt_d_le [of "pp_pid e"]
    by (auto simp: procs_wf_def reg_wf_def list_all_iff proc_wfe_def AEGIS_COMM_LEN_def)
  then have rows: "length (concat (map ?row (protected_procs s))) \<le> 33 * length (protected_procs s)"
    by (intro length_rows(1)) blast
  have n: "protected_proc_count s = int (length (protected_procs s))" "length (protected_procs s) \<le> 64"
    using assms(1) by (simp_all add: procs_wf_def reg_wf_def AEGIS_MAX_PROTECTED_PROCS_def)
  then have "length (fmt_d (protected_proc_count s)) \<le> 11" by (intro length_fmt_d_le) (simp add: int32_def)
  with rows n(2) show ?thesis by (simp add: aegis_protected_process_show_def MAX_BUF_def)
qed

lemma syscalls_fit:
  assumes "syscalls_wf s" "list_all (\<lambda>e. int32 (bs_syscall_nr e)) (blocked_syscalls s)"
  shows "length (aegis_blocked_syscall_show s) < MAX_BUF"
proof -
  let ?row = "\<lambda>e. pad_left (CHR '' '') 8 (fmt_d (bs_syscall_nr e)) @ [LF]"
  have "length (?row e) \<le> 12" if "e \<in> set (blocked_syscalls s)" for e
    using assms that length_fmt_d_le [of "bs_syscall_nr e"] by (auto simp: list_all_iff)
  then have rows: "length (concat (map ?row (blocked_syscalls s))) \<le> 12 * length (blocked_syscalls s)"
    by (intro length_rows(1)) blast
  have n: "blocked_syscall_count s = int (length (blocked_syscalls s))" "length (blocked_syscalls s) \<le> 256"
    using assms(1) by (simp_all add: syscalls_wf_def reg_wf_def AEGIS_MAX_BLOCKED_SYSCALLS_def)
  then have "length (fmt_d (blocked_syscall_count s)) \<le> 11" by (intro length_fmt_d_le) (simp add: int32_def)
  with rows n(2) show ?thesis by (simp add: aegis_blocked_syscall_show_def MAX_BUF_def)
qed

text \<open>A row of the file listing has at least 51 and at most 321 bytes.\<close>

lemma length_file_hash: "length (file_hash_str e) = (if pf_hash_valid e then 64 else 9)"
proof -
  have "length (concat (map (\<lambda>i. fmt_02x (pf_hash e ! i)) is)) = 2 * length is" for "is"
    by (induction "is") (simp_all add: length_fmt_02x)
  then show ?thesis by (simp add: file_hash_str_def AEGIS_HASH_SIZE_def)
qed

lemma files_too_long:
  assumes "80 \<le> length (protected_files s)"
  shows "MAX_BUF \<le> length (aegis_protected_file_show s)"
proof -
  let ?row = "\<lambda>e. pad_right 40 (cstr (pf_path e)) @ '' '' @ file_hash_str e @ [LF]"
  have "51 \<le> length (?row e)" for e by (simp add: length_file_hash)
  then have "51 * length (protected_files s) \<le> length (concat (map ?row (protected_files s)))"
    by (intro length_rows(2)) blast
  with assms show ?thesis by (simp add: aegis_protected_file_show_def MAX_BUF_def)
qed

lemma files_fit:
  assumes "files_wf s" "length (protected_files s) \<le> 12"
  shows "length (aegis_protected_file_show s) < MAX_BUF"
proof -
  let ?row = "\<lambda>e. pad_right 40 (cstr (pf_path e)) @ '' '' @ file_hash_str e @ [LF]"
  have "length (?row e) \<le> 321" if "e \<in> set (protected_files s)" for e
    using assms(1) that
    by (auto simp: files_wf_def reg_wf_def list_all_iff file_wfe_def AEGIS_PATH_LEN_def length_file_hash)
  then have rows: "length (concat (map ?row (protected_files s))) \<le> 321 * length (protected_files s)"
    by (intro length_rows(1)) blast
  have "protected_file_count s = int (length (protected_files s))"
    using assms(1) by (simp add: files_wf_def reg_wf_def)
  then have "length (fmt_d (protected_file_count s)) \<le> 11"
    using assms(2) by (intro length_fmt_d_le) (simp add: int32_def)
  with rows assms(2) show ?thesis by (simp add: aegis_protected_file_show_def MAX_BUF_def)
qed


section \<open>What a listing command prints\<close>

definition listing_head :: "string \<Rightarrow> string" where
  "listing_head title =
     [LF] @ box_top 42 @ box_side @ pad_right 42 (''     '' @ title) @ box_side @ [LF] @ box_bottom 42"

lemma read_files_open:
  assumes "tree_up d" "read_show file s = Some bytes"
  shows "file \<noteq> AEGIS_NAME \<and> entry_mode d file = Some 292 \<and> may_open root 292 O_RDONLY"
proof -
  have names: "file \<in> {''status'', ''stats'', ''protected_procs'', ''protected_files'', ''blocked_syscalls''}"
    using assms(2) by (simp split: if_splits)
  then have "file \<in> fst ` set read_files" unfolding read_files_def by simp
  then have "\<exists>u. (file, u) \<in> set read_files" by force
  with entry_mode_up(2) [OF assms(1)] have "entry_mode d file = Some 292" by blast
  moreover have "may_open root 292 O_RDONLY" by (simp add: may_open_def)
  moreover have "file \<noteq> AEGIS_NAME" using names by (auto simp: AEGIS_NAME_def)
  ultimately show ?thesis by blast
qed

lemma titled_on_kernel:
  assumes "read_show file (kw_state w) = Some bytes" "NUL \<notin> set bytes" "bytes \<noteq> []"
    and "tree_up (kw_sfs w)"
  shows "snd (titled kernel_os title file (w, out)) = out @ listing_head title @ take (MAX_BUF - 1) bytes"
    and "kw_state (fst (titled kernel_os title file (w, out))) = kw_state w"
proof -
  let ?w = "w\<lparr>kw_files := kw_files w @ [Secfs file]\<rparr>"
  have opened: "os_open kernel_os (AEGIS_SECURITYFS @ ''/'' @ file) O_RDONLY w = (Inr (length (kw_files w)), ?w)"
    using read_files_open [OF assms(4,1)]
    by (simp add: kernel_os_def kernel_open_def kernel_lookup_def del: read_show.simps)
  have read: "os_read kernel_os (length (kw_files w)) (MAX_BUF - 1) ?w = (Inr (take (MAX_BUF - 1) bytes), ?w)"
    using assms(1) by (simp add: kernel_os_def kernel_read_def del: read_show.simps)
  obtain b bs where shown: "take (MAX_BUF - 1) bytes = b # bs"
    using assms(3) by (cases "take (MAX_BUF - 1) bytes") (simp_all add: MAX_BUF_def)
  have "NUL \<notin> set (b # bs)" using assms(2) set_take_subset [of "MAX_BUF - 1" bytes] unfolding shown by blast
  then have "cstr (b # bs) = b # bs" by (rule cstr_id)
  then show "snd (titled kernel_os title file (w, out)) = out @ listing_head title @ take (MAX_BUF - 1) bytes"
    "kw_state (fst (titled kernel_os title file (w, out))) = kw_state w"
    unfolding titled_def print_file_def Let_def fst_conv snd_conv prod.case opened sum.case read shown list.case
    by (simp_all add: listing_head_def kernel_os_def)
qed

text \<open>
  Running the tool with the command exits with 0, prints the title box and then the text, and
  changes nothing in the module.
\<close>

definition lists_text :: "('d, 'p) kworld \<Rightarrow> string \<Rightarrow> string \<Rightarrow> string \<Rightarrow> string list \<Rightarrow> bool" where
  "lists_text w cmd title bytes rest \<longleftrightarrow>
     map_option (\<lambda>(rc, w', out). (rc, out, kw_state w')) (aegisctl_main kernel_os (''aegisctl'' # cmd # rest) (w, [])) =
       Some (0, listing_head title @ bytes, kw_state w)"

lemma listing_commands:
  fixes w :: "('d, 'p) kworld"
  defines "trim \<equiv> take (MAX_BUF - 1)" and "s \<equiv> kw_state w"
  assumes up: "tree_up (kw_sfs w)"
  shows "lists_text w ''status'' ''AEGIS Security Module Status'' (trim (aegis_status_show s)) rest"
    and "lists_text w ''stats'' ''AEGIS Event Statistics'' (trim (aegis_stats_show s)) rest"
    and "lists_text w ''procs'' ''AEGIS Protected Processes'' (trim (aegis_protected_process_show s)) rest"
    and "lists_text w ''files'' ''AEGIS Protected Files'' (trim (aegis_protected_file_show s)) rest"
    and "lists_text w ''symlist'' ''AEGIS Blocked Syscalls'' (trim (aegis_blocked_syscall_show s)) rest"
proof -
  have ne: "aegis_status_show s \<noteq> []" "aegis_stats_show s \<noteq> []" "aegis_protected_process_show s \<noteq> []"
      "aegis_protected_file_show s \<noteq> []" "aegis_blocked_syscall_show s \<noteq> []"
    by (simp_all add: aegis_status_show_def aegis_stats_show_def aegis_protected_process_show_def
        aegis_protected_file_show_def aegis_blocked_syscall_show_def)
  note t = titled_on_kernel [where w = w and out = "[]", OF _ _ _ up, folded s_def trim_def]
  note [simp] = lists_text_def aegisctl_main_def case_prod_beta
  show "lists_text w ''status'' ''AEGIS Security Module Status'' (trim (aegis_status_show s)) rest"
    using t [of "''status''", OF _ shown_NUL(1) ne(1)] by (simp add: cmd_status_def s_def)
  show "lists_text w ''stats'' ''AEGIS Event Statistics'' (trim (aegis_stats_show s)) rest"
    using t [of "''stats''", OF _ shown_NUL(2) ne(2)] by (simp add: cmd_stats_def s_def)
  show "lists_text w ''procs'' ''AEGIS Protected Processes'' (trim (aegis_protected_process_show s)) rest"
    using t [of "''protected_procs''", OF _ shown_NUL(3) ne(3)] by (simp add: cmd_procs_def s_def)
  show "lists_text w ''files'' ''AEGIS Protected Files'' (trim (aegis_protected_file_show s)) rest"
    using t [of "''protected_files''", OF _ shown_NUL(4) ne(4)] by (simp add: cmd_files_def s_def)
  show "lists_text w ''symlist'' ''AEGIS Blocked Syscalls'' (trim (aegis_blocked_syscall_show s)) rest"
    using t [of "''blocked_syscalls''", OF _ shown_NUL(5) ne(5)] by (simp add: cmd_symlist_def s_def)
qed

text \<open>A file list of 80 entries: the paths are rows of 1 to 80 letters.\<close>

definition demo_path :: "nat \<Rightarrow> string" where
  "demo_path i = strscpy (memset0 AEGIS_PATH_LEN) (replicate (Suc i) (CHR ''a'')) AEGIS_PATH_LEN"

definition demo_80_files :: "(8 word list, unit) kworld" where
  "demo_80_files = demo_world\<lparr>kw_state := aegis_statics
     \<lparr>protected_files := map (\<lambda>i. \<lparr>pf_path = demo_path i, pf_hash = [], pf_hash_valid = False\<rparr>) [0..<80],
      protected_file_count := 80\<rparr>\<rparr>"

lemma demo_path: "i < 80 \<Longrightarrow> cstr (demo_path i) = replicate (Suc i) (CHR ''a'')" "length (demo_path i) = AEGIS_PATH_LEN"
  by (simp_all add: demo_path_def cstr_strscpy length_strscpy AEGIS_PATH_LEN_def cstr_id del: replicate_Suc)

lemma demo_80_files_wf: "lists_wf (kw_state demo_80_files)"
proof -
  have "inj_on (\<lambda>i. cstr (demo_path i)) {0..<80}"
    by (rule inj_on_inverseI [where g = "\<lambda>p. length p - 1"]) (simp add: demo_path(1) del: replicate_Suc)
  then show ?thesis
    by (auto simp: demo_80_files_def lists_wf_def procs_wf_def files_wf_def syscalls_wf_def reg_wf_def aegis_statics_def
        file_wfe_def file_key_def list_all_iff demo_path AEGIS_PATH_LEN_def AEGIS_MAX_PROTECTED_FILES_def
        comp_def distinct_map simp del: replicate_Suc)
qed

text \<open>
  C34: What the listing commands print, when the securityfs tree is there, the lists are well
  formed and their pids and syscall numbers are C ints. Each of them exits with 0 and changes
  nothing. \<open>status\<close>, \<open>stats\<close>, \<open>procs\<close> and \<open>symlist\<close> print the whole text of their file, however
  full the lists are. \<open>files\<close> prints exactly the first 4095 bytes of its file: the whole text when
  at most 12 files are protected, and less than the whole text once 80 of the 128 places are taken.
\<close>

theorem aegisctl_listings_complete:
  fixes w :: "('d, 'p) kworld"
  defines "s \<equiv> kw_state w"
  assumes "lists_wf s" and "list_all (\<lambda>e. int32 (pp_pid e)) (protected_procs s)"
    and "list_all (\<lambda>e. int32 (bs_syscall_nr e)) (blocked_syscalls s)" and "tree_up (kw_sfs w)"
  shows "lists_text w ''status'' ''AEGIS Security Module Status'' (aegis_status_show s) rest \<and>
    lists_text w ''stats'' ''AEGIS Event Statistics'' (aegis_stats_show s) rest \<and>
    lists_text w ''procs'' ''AEGIS Protected Processes'' (aegis_protected_process_show s) rest \<and>
    lists_text w ''symlist'' ''AEGIS Blocked Syscalls'' (aegis_blocked_syscall_show s) rest \<and>
    lists_text w ''files'' ''AEGIS Protected Files'' (take 4095 (aegis_protected_file_show s)) rest \<and>
    (length (protected_files s) \<le> 12 \<longrightarrow> length (aegis_protected_file_show s) \<le> 4095) \<and>
    (80 \<le> length (protected_files s) \<longrightarrow> 4095 < length (aegis_protected_file_show s))"
proof -
  have wf: "procs_wf s" "syscalls_wf s" "files_wf s" using assms(2) by (simp_all add: lists_wf_def)
  have whole: "take (MAX_BUF - 1) bytes = bytes" if "length bytes < MAX_BUF" for bytes :: string using that by simp
  note c = listing_commands [of w, folded s_def, OF assms(5)]
  have "lists_text w ''status'' ''AEGIS Security Module Status'' (aegis_status_show s) rest"
    "lists_text w ''stats'' ''AEGIS Event Statistics'' (aegis_stats_show s) rest"
    "lists_text w ''procs'' ''AEGIS Protected Processes'' (aegis_protected_process_show s) rest"
    "lists_text w ''symlist'' ''AEGIS Blocked Syscalls'' (aegis_blocked_syscall_show s) rest"
    using c(1) [of rest, unfolded whole [OF status_fits(1)]] c(2) [of rest, unfolded whole [OF status_fits(2)]]
      c(3) [of rest, unfolded whole [OF procs_fit [OF wf(1) assms(3)]]]
      c(5) [of rest, unfolded whole [OF syscalls_fit [OF wf(2) assms(4)]]] by -
  moreover have "lists_text w ''files'' ''AEGIS Protected Files'' (take 4095 (aegis_protected_file_show s)) rest"
    using c(4) [of rest] by (simp add: MAX_BUF_def)
  moreover have "length (protected_files s) \<le> 12 \<longrightarrow> length (aegis_protected_file_show s) \<le> 4095"
    using files_fit [OF wf(3)] by (auto simp: MAX_BUF_def)
  moreover have "80 \<le> length (protected_files s) \<longrightarrow> 4095 < length (aegis_protected_file_show s)"
    using files_too_long [of s] by (auto simp: MAX_BUF_def)
  ultimately show ?thesis by blast
qed

theorem aegisctl_listings_complete_witness:
  "lists_wf (kw_state demo_80_files) \<and>
   lists_text demo_80_files ''procs'' ''AEGIS Protected Processes''
     (aegis_protected_process_show (kw_state demo_80_files)) [] \<and>
   lists_text demo_80_files ''files'' ''AEGIS Protected Files''
     (take 4095 (aegis_protected_file_show (kw_state demo_80_files))) [] \<and>
   4095 < length (aegis_protected_file_show (kw_state demo_80_files))"
proof -
  have up: "tree_up (kw_sfs demo_80_files)"
    using late_init_tree [of "\<lambda>_. None"] unfolding demo_tree by (simp add: demo_80_files_def)
  have "protected_procs (kw_state demo_80_files) = []" "blocked_syscalls (kw_state demo_80_files) = []"
    "length (protected_files (kw_state demo_80_files)) = 80"
    by (simp_all add: demo_80_files_def aegis_statics_def)
  then show ?thesis
    using aegisctl_listings_complete [OF demo_80_files_wf _ _ up, of "[]"] demo_80_files_wf by fastforce
qed

end
