(* ===== verification/Devkit_Init.thy ===== *)
theory Devkit_Init
  imports Aegis_Text
begin

text \<open>
  The first process of the developer image, \<^verbatim>\<open>devkit/src/init/aegis_init.c\<close>. What it
  asks of the kernel and of the C library is recorded as a list of requests, in order (an open
  and a popen with their success, since what follows depends on it); what they answer (how much a
  write takes, whether a mount, an open or an exec succeeds, what a read returns) is an
  environment. What the requests are for is stated by a specification of its own: the system
  they prepare, which refuses requests in the wrong order.
\<close>

section \<open>Requests and answers\<close>

datatype request =
    Signal string
  | Stdout string
  | Mkdir string nat
  | Mount string string string nat "string option"
  | Mknod string nat nat nat
  | Setenv string string
  | Sethostname string
  | Open string bool
  | Read string nat
  | Close string
  | Popen string bool
  | Pclose string
  | Printf string
  | Exec string "string list"
  | Perror string

record init_env =
  ie_write :: "nat \<Rightarrow> nat \<Rightarrow> int"
  ie_mount :: "string \<Rightarrow> string \<Rightarrow> bool"
  ie_sethostname :: bool
  ie_open :: "string \<Rightarrow> bool"
  ie_read :: "string \<Rightarrow> nat \<Rightarrow> string"
  ie_popen :: "string \<Rightarrow> string list option"
  ie_exec :: "string \<Rightarrow> string list \<Rightarrow> bool"

text \<open>The state of the run: the requests so far and the number of \<open>write\<close> calls made.\<close>

record init_state =
  requests :: "request list"
  writes :: nat

definition request :: "request \<Rightarrow> init_state \<Rightarrow> init_state" where
  "request r s = s\<lparr>requests := requests s @ [r]\<rparr>"

definition MS_NOSUID :: nat where "MS_NOSUID = 2"
definition MS_NODEV :: nat where "MS_NODEV = 4"
definition MS_NOEXEC :: nat where "MS_NOEXEC = 8"


section \<open>Output\<close>

text \<open>
  The loop of \<open>safe_write\<close>: a call to \<open>write\<close> is numbered and given the bytes that are
  left; it takes at most those, and a result of 0 or less ends the loop.
\<close>

function safe_write :: "init_env \<Rightarrow> string \<Rightarrow> init_state \<Rightarrow> init_state" where
  "safe_write env buf s =
     (if buf = [] then s
      else
        let n = ie_write env (writes s) (length buf);
            s1 = s\<lparr>writes := Suc (writes s)\<rparr>
        in if n \<le> 0 then s1
           else safe_write env (drop (nat n) buf) (request (Stdout (take (nat n) buf)) s1))"
  by pat_completeness auto
termination
  by (relation "measure (\<lambda>(env, buf, s). length buf)") auto

declare safe_write.simps [simp del]

definition ESC :: char where "ESC = CHR 0x1B"

definition AEGIS_COLORS :: string where
  "AEGIS_COLORS = [ESC] @ ''[1;33m'' @ ''  [AEGIS] '' @ [ESC] @ ''[0m''"

definition print_msg :: "init_env \<Rightarrow> string \<Rightarrow> init_state \<Rightarrow> init_state" where
  "print_msg env msg s = safe_write env [LF] (safe_write env msg (safe_write env AEGIS_COLORS s))"

definition print_msg_raw :: "init_env \<Rightarrow> string \<Rightarrow> init_state \<Rightarrow> init_state" where
  "print_msg_raw env msg s = safe_write env msg s"


section \<open>Setting the system up\<close>

definition mounts :: "(string \<times> string \<times> string) list" where
  "mounts =
     [(''proc'', ''/proc'', ''proc''), (''sysfs'', ''/sys'', ''sysfs''),
      (''securityfs'', ''/sys/kernel/security'', ''securityfs''), (''tmpfs'', ''/tmp'', ''tmpfs''),
      (''devtmpfs'', ''/dev'', ''devtmpfs''), (''debugfs'', ''/sys/kernel/debug'', ''debugfs'')]"

definition do_mount ::
    "init_env \<Rightarrow> string \<Rightarrow> string \<Rightarrow> string \<Rightarrow> nat \<Rightarrow> string option \<Rightarrow> init_state \<Rightarrow> int \<times> init_state" where
  "do_mount env source target fstype flags data s =
     (let s1 = request (Mount source target fstype flags data) (request (Mkdir target 493) s) in
      if ie_mount env source target then (0, print_msg env target s1) else (-1, s1))"

fun mount_loop :: "init_env \<Rightarrow> (string \<times> string \<times> string) list \<Rightarrow> init_state \<Rightarrow> init_state" where
  "mount_loop env [] s = s"
| "mount_loop env ((source, target, fstype) # rest) s =
     mount_loop env rest (snd (do_mount env source target fstype (MS_NOEXEC + MS_NOSUID) None s))"

definition setup_filesystems :: "init_env \<Rightarrow> init_state \<Rightarrow> init_state" where
  "setup_filesystems env s =
     (let s = print_msg env ''Mounting filesystems...'' s;
          s = mount_loop env mounts s;
          s = request (Mount ''proc'' ''/proc'' ''proc'' (MS_NOSUID + MS_NODEV + MS_NOEXEC) None) s;
          s = request (Mount ''sysfs'' ''/sys'' ''sysfs'' (MS_NOSUID + MS_NODEV + MS_NOEXEC) None) s;
          s = request (Mkdir ''/dev/pts'' 493) s;
          s = request (Mount ''devpts'' ''/dev/pts'' ''devpts'' (MS_NOEXEC + MS_NOSUID) None) s;
          s = request (Mkdir ''/run'' 493) s;
          s = request (Mount ''tmpfs'' ''/run'' ''tmpfs'' (MS_NOEXEC + MS_NOSUID) (Some ''size=64M,mode=0755'')) s
      in print_msg env ''Filesystems mounted'' s)"

text \<open>Modes 0666, 0600 and 0620 are 438, 384 and 400.\<close>

definition device_nodes :: "request list" where
  "device_nodes =
     [Mknod ''/dev/null'' 438 1 3, Mknod ''/dev/zero'' 438 1 5, Mknod ''/dev/full'' 438 1 7,
      Mknod ''/dev/random'' 438 1 8, Mknod ''/dev/urandom'' 438 1 9, Mknod ''/dev/tty'' 438 5 0,
      Mknod ''/dev/console'' 384 5 1, Mknod ''/dev/ptmx'' 438 5 2] @
     map (\<lambda>i. Mknod (take 31 (''/dev/tty'' @ fmt_d (int i))) 400 4 i) [1..<7]"

definition create_device_nodes :: "init_env \<Rightarrow> init_state \<Rightarrow> init_state" where
  "create_device_nodes env s =
     print_msg env ''Device nodes created''
       (fold request device_nodes (print_msg env ''Creating device nodes...'' s))"

definition environment :: "(string \<times> string) list" where
  "environment =
     [(''HOME'', ''/root''), (''PATH'', ''/usr/local/bin:/usr/bin:/bin:/usr/sbin:/sbin''),
      (''TERM'', ''linux''),
      (''PS1'', [CHR 0x5C] @ ''033[1;32mAEGIS'' @ [CHR 0x5C] @ ''033[0m:'' @ [CHR 0x5C] @ ''w'' @ [CHR 0x5C] @ ''$ ''),
      (''LANG'', ''en_US.UTF-8''), (''SHELL'', ''/bin/sh''), (''AEGIS_VERSION'', ''1.0.0''),
      (''AEGIS_KERNEL'', ''7.3.0-rc1-aegis'')]"

definition setup_environment :: "init_env \<Rightarrow> init_state \<Rightarrow> init_state" where
  "setup_environment env s =
     (let s = print_msg env ''Setting up environment...'' s;
          s = fold (\<lambda>(k, v). request (Setenv k v)) environment s;
          s = request (Sethostname ''aegis-dev'') s;
          s = (if ie_sethostname env then s else print_msg env ''Warning: sethostname failed'' s)
      in print_msg env ''Environment ready'' s)"


section \<open>Checks, information and the shell\<close>

definition MARK_OK :: string where "MARK_OK = [CHR 0xE2, CHR 0x9C, CHR 0x85]"
definition MARK_WARN :: string where
  "MARK_WARN = [CHR 0xE2, CHR 0x9A, CHR 0xA0, CHR 0xEF, CHR 0xB8, CHR 0x8F]"
definition MARK_INFO :: string where
  "MARK_INFO = [CHR 0xE2, CHR 0x84, CHR 0xB9, CHR 0xEF, CHR 0xB8, CHR 0x8F]"

text \<open>Whether a C string contains another, the test \<open>strstr(buf, "aegis")\<close> makes.\<close>

fun contains :: "string \<Rightarrow> string \<Rightarrow> bool" where
  "contains needle [] \<longleftrightarrow> needle = []"
| "contains needle (c # cs) \<longleftrightarrow> take (length needle) (c # cs) = needle \<or> contains needle cs"

definition check_aegis :: "init_env \<Rightarrow> init_state \<Rightarrow> init_state" where
  "check_aegis env s =
     (let lsm = ''/proc/sys/kernel/lsm'';
          status = ''/sys/kernel/security/aegis/status'';
          s = print_msg env ''Checking AEGIS status...'' s;
          s = request (Open lsm (ie_open env lsm)) s;
          s = (if ie_open env lsm
               then let s = request (Read lsm 1023) s;
                        n = take 1023 (ie_read env lsm 1023);
                        buf = cstr n;
                        s = (if n = [] then s
                             else if contains ''aegis'' buf
                             then request (Printf (''  LSM chain: '' @ buf @ [LF]))
                                    (print_msg env (MARK_OK @ '' AEGIS is ACTIVE in kernel LSM chain'') s)
                             else request (Printf (''  LSM chain: '' @ buf @ [LF]))
                                    (print_msg env (MARK_WARN @ ''  AEGIS not found in LSM chain'') s))
                    in request (Close lsm) s
               else print_msg env (MARK_WARN @ ''  Cannot read /proc/sys/kernel/lsm'') s);
          s = request (Open status (ie_open env status)) s
      in if ie_open env status
         then let s = request (Read status 1023) s;
                  n = take 1023 (ie_read env status 1023);
                  s = (if n = [] then s else request (Printf ([LF] @ cstr n @ [LF])) s)
              in request (Close status) s
         else print_msg env
                (MARK_INFO @ ''  /sys/kernel/security/aegis/ not available (AEGIS may not be compiled in)'') s)"

text \<open>The strings \<open>fgets\<close> returns, one after another, are the answer of the command.\<close>

definition show_command :: "init_env \<Rightarrow> string \<Rightarrow> init_state \<Rightarrow> init_state" where
  "show_command env command s =
     (case ie_popen env command of
        None \<Rightarrow> request (Popen command False) s
      | Some chunks \<Rightarrow>
          request (Pclose command)
            (fold (\<lambda>buf. request (Printf (''  '' @ buf))) chunks (request (Popen command True) s)))"

definition show_system_info :: "init_env \<Rightarrow> init_state \<Rightarrow> init_state" where
  "show_system_info env s =
     show_command env ''cat /proc/meminfo | head -5''
       (show_command env ''uname -a'' (print_msg env ''System information:'' s))"

text \<open>An exec that succeeds does not come back.\<close>

definition run_shell :: "init_env \<Rightarrow> init_state \<Rightarrow> init_state" where
  "run_shell env s =
     (let shell = ''/bin/sh'';
          s = print_msg env ''Starting AEGIS development shell...'' s;
          s = print_msg_raw env ([ESC] @ ''[1;33m  Type '' @ [CHR 0x27] @ ''help'' @ [CHR 0x27] @
                '' for AEGIS commands'' @ [ESC] @ ''[0m'' @ [LF, LF]) s;
          s = request (Exec shell [shell, ''--login'']) s
      in if ie_exec env shell [shell, ''--login''] then s
         else let s = request (Exec ''/bin/sh'' [''sh'']) s in
              if ie_exec env ''/bin/sh'' [''sh''] then s else request (Perror ''Failed to exec shell'') s)"

text \<open>The banner: a box of 50 columns in UTF-8.\<close>

definition hline :: string where
  "hline = concat (replicate 50 [CHR 0xE2, CHR 0x95, CHR 0x90])"

definition vline :: string where "vline = [CHR 0xE2, CHR 0x95, CHR 0x91]"

definition banner_row :: "string \<Rightarrow> string" where
  "banner_row txt = ''    '' @ vline @ txt @ vline @ [LF]"

definition SHIELD :: string where
  "SHIELD = [CHR 0xF0, CHR 0x9F, CHR 0x9B, CHR 0xA1, CHR 0xEF, CHR 0xB8, CHR 0x8F]"

definition AEGIS_BANNER :: string where
  "AEGIS_BANNER =
     [LF] @ ''    '' @ [CHR 0xE2, CHR 0x95, CHR 0x94] @ hline @ [CHR 0xE2, CHR 0x95, CHR 0x97, LF] @
     banner_row (pad_right 50 []) @
     banner_row (''       '' @ SHIELD @ pad_right 39 ''  AEGIS DevKit  v1.0.0'') @
     banner_row (pad_right 49 ''       Advanced Guardian for'') @
     banner_row (pad_right 49 ''       Integrated System Security'') @
     banner_row (pad_right 50 []) @
     banner_row (pad_right 49 ''       Kernel: 7.3.0-rc1-aegis'') @
     banner_row (pad_right 49 ''       Userspace: Minimal Developer OS'') @
     banner_row (pad_right 50 []) @
     ''    '' @ [CHR 0xE2, CHR 0x95, CHR 0x9A] @ hline @ [CHR 0xE2, CHR 0x95, CHR 0x9D, LF] @ [LF]"

definition init_main :: "init_env \<Rightarrow> init_state \<Rightarrow> init_state" where
  "init_main env s =
     (let s = request (Signal ''SIGCHLD'') s;
          s = request (Signal ''SIGINT'') s;
          s = request (Signal ''SIGTERM'') s;
          s = print_msg_raw env AEGIS_BANNER s;
          s = setup_filesystems env s;
          s = create_device_nodes env s;
          s = setup_environment env s;
          s = check_aegis env s;
          s = show_system_info env s
      in run_shell env s)"


section \<open>What the output loop delivers\<close>

definition stdout_of :: "request list \<Rightarrow> string" where
  "stdout_of rs = concat (map (\<lambda>r. case r of Stdout t \<Rightarrow> t | _ \<Rightarrow> []) rs)"

lemma stdout_append [simp]: "stdout_of (xs @ ys) = stdout_of xs @ stdout_of ys"
  by (simp add: stdout_of_def)

lemma stdout_request [simp]:
  "stdout_of (requests (request (Stdout t) s)) = stdout_of (requests s) @ t"
  by (simp add: request_def stdout_of_def)

lemma request_fields [simp]: "writes (request r s) = writes s" "requests (s\<lparr>writes := n\<rparr>) = requests s"
  by (simp_all add: request_def)

text \<open>The loop ends, delivers a prefix, and delivers everything when every call makes progress.\<close>

lemma safe_write_prefix:
  "\<exists>k. stdout_of (requests (safe_write env buf s)) = stdout_of (requests s) @ take k buf"
proof (induction env buf s rule: safe_write.induct)
  case (1 env buf s)
  let ?n = "ie_write env (writes s) (length buf)" and ?s = "s\<lparr>writes := Suc (writes s)\<rparr>"
  show ?case
  proof (cases "buf \<noteq> [] \<and> 0 < ?n")
    case True
    with 1 obtain k where "stdout_of (requests (safe_write env (drop (nat ?n) buf)
        (request (Stdout (take (nat ?n) buf)) ?s))) =
      stdout_of (requests s) @ take (nat ?n) buf @ take k (drop (nat ?n) buf)" by auto
    with True have "stdout_of (requests (safe_write env buf s)) =
        stdout_of (requests s) @ take (nat ?n + k) buf"
      by (subst safe_write.simps) (simp add: take_add Let_def)
    then show ?thesis by blast
  next
    case False
    then have "stdout_of (requests (safe_write env buf s)) = stdout_of (requests s) @ take 0 buf"
      by (subst safe_write.simps) (auto simp: Let_def)
    then show ?thesis by blast
  qed
qed

lemma safe_write_all:
  "(\<And>i m. 0 < m \<Longrightarrow> 0 < ie_write env i m) \<Longrightarrow>
   stdout_of (requests (safe_write env buf s)) = stdout_of (requests s) @ buf"
proof (induction env buf s rule: safe_write.induct)
  case (1 env buf s)
  show ?case
  proof (cases "buf = []")
    case True
    then show ?thesis by (subst safe_write.simps) simp
  next
    case False
    with 1(2) have pos: "0 < ie_write env (writes s) (length buf)" by simp
    then have "\<not> ie_write env (writes s) (length buf) \<le> 0" by simp
    with False 1 show ?thesis by (subst safe_write.simps) (simp add: Let_def not_le)
  qed
qed

text \<open>One call per byte at most.\<close>

lemma safe_write_calls:
  "writes (safe_write env buf s) \<le> writes s + length buf"
proof (induction env buf s rule: safe_write.induct)
  case (1 env buf s)
  let ?n = "ie_write env (writes s) (length buf)" and ?s = "s\<lparr>writes := Suc (writes s)\<rparr>"
  show ?case
  proof (cases "buf \<noteq> [] \<and> 0 < ?n")
    case True
    then have "0 < length buf" "0 < nat ?n" by auto
    then have "Suc (writes s) + (length buf - nat ?n) \<le> writes s + length buf" by linarith
    moreover have "writes (safe_write env (drop (nat ?n) buf) (request (Stdout (take (nat ?n) buf)) ?s)) \<le>
        Suc (writes s) + (length buf - nat ?n)"
      using 1 True by fastforce
    moreover have "safe_write env buf s =
        safe_write env (drop (nat ?n) buf) (request (Stdout (take (nat ?n) buf)) ?s)"
      using True by (subst safe_write.simps) (simp add: Let_def)
    ultimately show ?thesis by (metis order_trans)
  next
    case False
    then show ?thesis by (subst safe_write.simps) (auto simp: Let_def Suc_le_eq)
  qed
qed


section \<open>The system the requests prepare\<close>

text \<open>
  A specification: what has been set up so far, and which request may come next. A mount needs
  its directory, a device node needs \<open>/dev\<close> mounted, a file is opened below a mounted file system
  and only while no other file or command is open, it is read and closed while it is open.
  Output may come at any time. Starting a program or giving up is not part of the preparation.
\<close>

record prepared =
  handled :: "string list"
  made :: "string list"
  mounted :: "(string \<times> string \<times> string \<times> nat \<times> string option) list"
  nodes :: "(string \<times> nat \<times> nat \<times> nat) list"
  vars :: "(string \<times> string) list"
  hostname :: "string option"
  inspected :: "string list"
  commands :: "string list"
  held :: "string option"

definition below_mount :: "prepared \<Rightarrow> string \<Rightarrow> bool" where
  "below_mount p path \<longleftrightarrow>
     list_ex (\<lambda>(target, _). take (Suc (length target)) path = target @ ''/'') (mounted p)"

fun prepare :: "request \<Rightarrow> prepared \<Rightarrow> prepared option" where
  "prepare (Signal sig) p = Some (p\<lparr>handled := handled p @ [sig]\<rparr>)"
| "prepare (Mkdir path mode) p = (if mode = 493 then Some (p\<lparr>made := made p @ [path]\<rparr>) else None)"
| "prepare (Mount source target fstype flags data) p =
     (if target \<in> set (made p)
      then Some (p\<lparr>mounted := mounted p @ [(target, source, fstype, flags, data)]\<rparr>) else None)"
| "prepare (Mknod path mode major minor) p =
     (if below_mount p path then Some (p\<lparr>nodes := nodes p @ [(path, mode, major, minor)]\<rparr>) else None)"
| "prepare (Setenv k v) p = Some (p\<lparr>vars := vars p @ [(k, v)]\<rparr>)"
| "prepare (Sethostname h) p = Some (p\<lparr>hostname := Some h\<rparr>)"
| "prepare (Open path ok) p =
     (if held p = None \<and> below_mount p path
      then Some (p\<lparr>inspected := inspected p @ [path], held := if ok then Some path else None\<rparr>)
      else None)"
| "prepare (Read path n) p = (if held p = Some path then Some p else None)"
| "prepare (Close path) p = (if held p = Some path then Some (p\<lparr>held := None\<rparr>) else None)"
| "prepare (Popen command ok) p =
     (if held p = None
      then Some (p\<lparr>commands := commands p @ [command], held := if ok then Some command else None\<rparr>)
      else None)"
| "prepare (Pclose command) p = (if held p = Some command then Some (p\<lparr>held := None\<rparr>) else None)"
| "prepare (Stdout t) p = Some p"
| "prepare (Printf t) p = Some p"
| "prepare (Exec file argv) p = None"
| "prepare (Perror t) p = None"

definition unprepared :: prepared where
  "unprepared =
     \<lparr>handled = [], made = [], mounted = [], nodes = [], vars = [], hostname = None,
      inspected = [], commands = [], held = None\<rparr>"

definition prepare_all :: "request list \<Rightarrow> prepared option" where
  "prepare_all rs = fold (\<lambda>r p. Option.bind p (prepare r)) rs (Some unprepared)"

text \<open>The system the developer shell is meant to find.\<close>

definition developer_system :: prepared where
  "developer_system =
     \<lparr>handled = [''SIGCHLD'', ''SIGINT'', ''SIGTERM''],
      made = [''/proc'', ''/sys'', ''/sys/kernel/security'', ''/tmp'', ''/dev'', ''/sys/kernel/debug'',
        ''/dev/pts'', ''/run''],
      mounted = [(''/proc'', ''proc'', ''proc'', 10, None), (''/sys'', ''sysfs'', ''sysfs'', 10, None),
        (''/sys/kernel/security'', ''securityfs'', ''securityfs'', 10, None),
        (''/tmp'', ''tmpfs'', ''tmpfs'', 10, None), (''/dev'', ''devtmpfs'', ''devtmpfs'', 10, None),
        (''/sys/kernel/debug'', ''debugfs'', ''debugfs'', 10, None),
        (''/proc'', ''proc'', ''proc'', 14, None), (''/sys'', ''sysfs'', ''sysfs'', 14, None),
        (''/dev/pts'', ''devpts'', ''devpts'', 10, None),
        (''/run'', ''tmpfs'', ''tmpfs'', 10, Some ''size=64M,mode=0755'')],
      nodes = [(''/dev/null'', 438, 1, 3), (''/dev/zero'', 438, 1, 5), (''/dev/full'', 438, 1, 7),
        (''/dev/random'', 438, 1, 8), (''/dev/urandom'', 438, 1, 9), (''/dev/tty'', 438, 5, 0),
        (''/dev/console'', 384, 5, 1), (''/dev/ptmx'', 438, 5, 2), (''/dev/tty1'', 400, 4, 1),
        (''/dev/tty2'', 400, 4, 2), (''/dev/tty3'', 400, 4, 3), (''/dev/tty4'', 400, 4, 4),
        (''/dev/tty5'', 400, 4, 5), (''/dev/tty6'', 400, 4, 6)],
      vars = [(''HOME'', ''/root''), (''PATH'', ''/usr/local/bin:/usr/bin:/bin:/usr/sbin:/sbin''),
        (''TERM'', ''linux''),
        (''PS1'', [CHR 0x5C] @ ''033[1;32mAEGIS'' @ [CHR 0x5C] @ ''033[0m:'' @ [CHR 0x5C] @ ''w'' @ [CHR 0x5C] @ ''$ ''),
        (''LANG'', ''en_US.UTF-8''), (''SHELL'', ''/bin/sh''), (''AEGIS_VERSION'', ''1.0.0''),
        (''AEGIS_KERNEL'', ''7.3.0-rc1-aegis'')],
      hostname = Some ''aegis-dev'',
      inspected = [''/proc/sys/kernel/lsm'', ''/sys/kernel/security/aegis/status''],
      commands = [''uname -a'', ''cat /proc/meminfo | head -5''],
      held = None\<rparr>"

text \<open>How far the requests of a state have got.\<close>

definition ready :: "init_state \<Rightarrow> prepared option" where
  "ready s = prepare_all (requests s)"

lemma ready_request [simp]: "ready (request r s) = Option.bind (ready s) (prepare r)"
  by (simp add: ready_def request_def prepare_all_def)

lemma ready_writes [simp]: "ready (s\<lparr>writes := n\<rparr>) = ready s"
  by (simp add: ready_def)

lemma prepare_output [simp]: "prepare (Stdout t) = Some" "prepare (Printf t) = Some"
  by (simp_all add: fun_eq_iff)

lemma bind_Some [simp]: "Option.bind p Some = p"
  by (cases p) simp_all

lemma ready_safe_write [simp]: "ready (safe_write env buf s) = ready s"
  by (induction env buf s rule: safe_write.induct) (subst safe_write.simps, simp add: Let_def)

lemma ready_print [simp]: "ready (print_msg env m s) = ready s" "ready (print_msg_raw env m s) = ready s"
  by (simp_all add: print_msg_def print_msg_raw_def)

lemma ready_printf_fold [simp]: "ready (fold (\<lambda>buf. request (Printf (f buf))) xs s) = ready s"
  by (induction xs arbitrary: s) simp_all

lemma ready_mount [simp]:
  "ready (snd (do_mount env source target fstype flags data s)) =
     Option.bind (Option.bind (ready s) (prepare (Mkdir target 493)))
       (prepare (Mount source target fstype flags data))"
  by (simp add: do_mount_def Let_def)

lemma ready_check:
  assumes "ready s = Some p" "held p = None" "below_mount p ''/proc/sys/kernel/lsm''"
    "below_mount p ''/sys/kernel/security/aegis/status''"
  shows "ready (check_aegis env s) = Some (p\<lparr>inspected := inspected p @
    [''/proc/sys/kernel/lsm'', ''/sys/kernel/security/aegis/status'']\<rparr>)"
proof -
  have "below_mount (p\<lparr>inspected := a, held := b\<rparr>) path = below_mount p path" for a b path
    by (simp add: below_mount_def)
  with assms show ?thesis by (simp add: check_aegis_def Let_def)
qed

lemma ready_command:
  "ready s = Some p \<Longrightarrow> held p = None \<Longrightarrow>
   ready (show_command env c s) = Some (p\<lparr>commands := commands p @ [c]\<rparr>)"
  by (simp add: show_command_def split: option.split)

lemma ready_fold: "ready (fold request rs s) = fold (\<lambda>r p. Option.bind p (prepare r)) rs (ready s)"
  by (induction rs arbitrary: s) simp_all

lemma ready_setenv:
  "ready s = Some p \<Longrightarrow>
   ready (fold (\<lambda>(k, v). request (Setenv k v)) kvs s) = Some (p\<lparr>vars := vars p @ kvs\<rparr>)"
  by (induction kvs arbitrary: s p) auto

lemmas mount_flags = MS_NOSUID_def MS_NODEV_def MS_NOEXEC_def

lemma ready_filesystems:
  assumes "ready s = Some p" "made p = []" "mounted p = []"
  shows "ready (setup_filesystems env s) =
    Some (p\<lparr>made := made developer_system, mounted := mounted developer_system\<rparr>)"
  using assms by (simp add: setup_filesystems_def Let_def mounts_def mount_flags developer_system_def)

lemma ready_mknods:
  assumes "ready s = Some p" "\<forall>x\<in>set xs. below_mount p (fst x)"
  shows "ready (fold request (map (\<lambda>(n, mode, major, minor). Mknod n mode major minor) xs) s) =
    Some (p\<lparr>nodes := nodes p @ xs\<rparr>)"
  using assms
proof (induction xs arbitrary: s p)
  case (Cons x xs)
  obtain n mode major minor where x: "x = (n, mode, major, minor)" by (metis prod_cases4)
  let ?p = "p\<lparr>nodes := nodes p @ [x]\<rparr>"
  have "below_mount ?p path = below_mount p path" for path by (simp add: below_mount_def)
  moreover have "ready (request (Mknod n mode major minor) s) = Some ?p"
    using Cons.prems x by simp
  ultimately show ?case using Cons.IH [of _ ?p] Cons.prems(2) x by simp
qed simp

lemma device_nodes_eq:
  "device_nodes = map (\<lambda>(n, mode, major, minor). Mknod n mode major minor) (nodes developer_system)"
proof -
  have "map (\<lambda>i. Mknod (take 31 (''/dev/tty'' @ fmt_d (int i))) 400 4 i) [1..<7] =
      [Mknod ''/dev/tty1'' 400 4 1, Mknod ''/dev/tty2'' 400 4 2, Mknod ''/dev/tty3'' 400 4 3,
       Mknod ''/dev/tty4'' 400 4 4, Mknod ''/dev/tty5'' 400 4 5, Mknod ''/dev/tty6'' 400 4 6]"
    by code_simp
  then show ?thesis unfolding device_nodes_def by (simp add: developer_system_def)
qed

lemma ready_nodes:
  assumes "ready s = Some p" "mounted p = mounted developer_system" "nodes p = []"
  shows "ready (create_device_nodes env s) = Some (p\<lparr>nodes := nodes developer_system\<rparr>)"
proof -
  have "\<forall>x\<in>set (nodes developer_system). below_mount p (fst x)"
    using assms(2) by (simp add: below_mount_def developer_system_def)
  then show ?thesis
    using ready_mknods [of "print_msg env ''Creating device nodes...'' s" p] assms(1,3)
    by (simp add: create_device_nodes_def device_nodes_eq)
qed

lemma ready_environment:
  assumes "ready s = Some p" "vars p = []"
  shows "ready (setup_environment env s) =
    Some (p\<lparr>vars := vars developer_system, hostname := hostname developer_system\<rparr>)"
  using assms
  by (simp add: setup_environment_def Let_def ready_setenv environment_def developer_system_def)


section \<open>The shell\<close>

fun is_output :: "request \<Rightarrow> bool" where
  "is_output (Stdout t) \<longleftrightarrow> True"
| "is_output (Printf t) \<longleftrightarrow> True"
| "is_output _ \<longleftrightarrow> False"

text \<open>A later state has made these requests, besides its output, after those of an earlier one.\<close>

definition adds :: "init_state \<Rightarrow> init_state \<Rightarrow> request list \<Rightarrow> bool" where
  "adds s t rs \<longleftrightarrow>
     (\<exists>xs. requests t = requests s @ xs \<and> filter (\<lambda>r. \<not> is_output r) xs = rs)"

lemma adds_refl: "adds s s []"
  by (simp add: adds_def)

lemma adds_request: "adds s t rs \<Longrightarrow> adds s (request r t) (rs @ (if is_output r then [] else [r]))"
  by (auto simp: adds_def request_def)

lemma adds_safe_write: "adds s t rs \<Longrightarrow> adds s (safe_write env buf t) rs"
proof (induction env buf t rule: safe_write.induct)
  case (1 env buf t)
  let ?n = "ie_write env (writes t) (length buf)" and ?t = "t\<lparr>writes := Suc (writes t)\<rparr>"
  have "adds s ?t rs" using 1(2) by (simp add: adds_def)
  moreover from adds_request [OF this, of "Stdout (take (nat ?n) buf)"]
  have "adds s (request (Stdout (take (nat ?n) buf)) ?t) rs" by simp
  ultimately show ?case
    using 1 by (subst safe_write.simps) (simp add: Let_def)
qed

lemma adds_print:
  "adds s t rs \<Longrightarrow> adds s (print_msg env m t) rs" "adds s t rs \<Longrightarrow> adds s (print_msg_raw env m t) rs"
  by (simp_all add: print_msg_def print_msg_raw_def adds_safe_write)

text \<open>The shell, its fallback, and the message when neither starts.\<close>

definition shell_plan :: "init_env \<Rightarrow> request list" where
  "shell_plan env =
     (let login = [''/bin/sh'', ''--login''] in
      Exec ''/bin/sh'' login #
        (if ie_exec env ''/bin/sh'' login then []
         else Exec ''/bin/sh'' [''sh''] #
           (if ie_exec env ''/bin/sh'' [''sh''] then [] else [Perror ''Failed to exec shell''])))"

lemma adds_shell: "adds s (run_shell env s) (shell_plan env)"
proof -
  let ?start = "\<lambda>t. request (Exec ''/bin/sh'' [''/bin/sh'', ''--login'']) (print_msg_raw env
    ([ESC] @ ''[1;33m  Type '' @ [CHR 0x27] @ ''help'' @ [CHR 0x27] @ '' for AEGIS commands'' @
     [ESC] @ ''[0m'' @ [LF, LF]) (print_msg env ''Starting AEGIS development shell...'' t))"
  have "adds s (?start s) ([] @ (if is_output (Exec ''/bin/sh'' [''/bin/sh'', ''--login'']) then []
      else [Exec ''/bin/sh'' [''/bin/sh'', ''--login'']]))"
    by (rule adds_request, rule adds_print(2), rule adds_print(1), rule adds_refl)
  then have 1: "adds s (?start s) [Exec ''/bin/sh'' [''/bin/sh'', ''--login'']]" by simp
  from adds_request [OF 1, of "Exec ''/bin/sh'' [''sh'']"]
  have 2: "adds s (request (Exec ''/bin/sh'' [''sh'']) (?start s))
      [Exec ''/bin/sh'' [''/bin/sh'', ''--login''], Exec ''/bin/sh'' [''sh'']]" by simp
  from adds_request [OF 2, of "Perror ''Failed to exec shell''"] 1 2 show ?thesis
    unfolding run_shell_def shell_plan_def Let_def by simp
qed

definition init_start :: init_state where
  "init_start = \<lparr>requests = [], writes = 0\<rparr>"

lemma ready_before_shell:
  fixes env
  defines "s0 \<equiv> request (Signal ''SIGTERM'') (request (Signal ''SIGINT'') (request (Signal ''SIGCHLD'') init_start))"
  shows "ready (show_system_info env (check_aegis env (setup_environment env
    (create_device_nodes env (setup_filesystems env (print_msg_raw env AEGIS_BANNER s0)))))) =
    Some developer_system"
proof -
  let ?p = "unprepared\<lparr>handled := handled developer_system\<rparr>"
  let ?fs = "?p\<lparr>made := made developer_system, mounted := mounted developer_system\<rparr>"
  let ?dev = "?fs\<lparr>nodes := nodes developer_system\<rparr>"
  let ?env = "?dev\<lparr>vars := vars developer_system, hostname := hostname developer_system\<rparr>"
  let ?chk = "?env\<lparr>inspected := inspected developer_system\<rparr>"
  have "ready (print_msg_raw env AEGIS_BANNER s0) = Some ?p"
  proof -
    have "ready init_start = Some unprepared" by (simp add: ready_def prepare_all_def init_start_def)
    then show ?thesis by (simp add: s0_def unprepared_def developer_system_def)
  qed
  then have "ready (setup_filesystems env (print_msg_raw env AEGIS_BANNER s0)) = Some ?fs"
    using ready_filesystems [of _ ?p env] by (simp add: unprepared_def)
  from ready_nodes [OF this, of env] have "ready (create_device_nodes env (setup_filesystems env
      (print_msg_raw env AEGIS_BANNER s0))) = Some ?dev" by (simp add: unprepared_def)
  from ready_environment [OF this, of env] have e: "ready (setup_environment env
      (create_device_nodes env (setup_filesystems env (print_msg_raw env AEGIS_BANNER s0)))) = Some ?env"
    by (simp add: unprepared_def)
  have "ready (check_aegis env (setup_environment env
      (create_device_nodes env (setup_filesystems env (print_msg_raw env AEGIS_BANNER s0))))) = Some ?chk"
    using ready_check [OF e, of env] by (simp add: unprepared_def below_mount_def developer_system_def)
  then have "ready (print_msg env ''System information:'' (check_aegis env (setup_environment env
      (create_device_nodes env (setup_filesystems env (print_msg_raw env AEGIS_BANNER s0)))))) = Some ?chk"
    by simp
  from ready_command [OF this] have u: "ready (show_command env ''uname -a'' (print_msg env
      ''System information:'' (check_aegis env (setup_environment env (create_device_nodes env
        (setup_filesystems env (print_msg_raw env AEGIS_BANNER s0))))))) =
      Some (?chk\<lparr>commands := [''uname -a'']\<rparr>)"
    by (simp add: unprepared_def)
  from ready_command [OF u, of env "''cat /proc/meminfo | head -5''"] show ?thesis
    by (simp add: show_system_info_def unprepared_def developer_system_def)
qed


section \<open>Properties\<close>

text \<open>
  C37: The first process always starts the shell, in a system prepared for it. Whatever the kernel
  answers to the writes, mounts, opens, reads, commands and execs, the requests of the run are
  those of the preparation followed by those of the shell. The preparation respects the order the
  system needs (directories before the mounts on them, \<open>/dev\<close> mounted before its nodes, files
  opened below a mounted file system, one at a time, and each open file and command stream closed
  again), and at its end the three signals are handled, the file systems, device nodes,
  environment variables and host name are exactly the documented ones, the LSM chain and the
  AEGIS status have been looked at, and nothing is held open. The shell follows, its fallback if
  that does not start, and the error message only if neither does.
\<close>

theorem init_prepares_system_and_starts_shell:
  "\<exists>before after. requests (init_main env init_start) = before @ after \<and>
     prepare_all before = Some developer_system \<and>
     filter (\<lambda>r. \<not> is_output r) after = shell_plan env"
proof -
  obtain s where main: "init_main env init_start = run_shell env s" and s: "ready s = Some developer_system"
    using ready_before_shell [of env] by (simp add: init_main_def Let_def)
  from adds_shell [of s env] s show ?thesis
    unfolding main adds_def ready_def by blast
qed

text \<open>
  C39: Output is delivered in order, and the loop ends. Whatever the calls of \<open>write\<close> take, the
  output loop ends after at most one call per byte and has written a prefix of its text after
  what was written before; when every call takes at least one byte, it has written all of it.
\<close>

theorem safe_write_delivers:
  "writes (safe_write env buf s) \<le> writes s + length buf \<and>
   (\<exists>k. stdout_of (requests (safe_write env buf s)) = stdout_of (requests s) @ take k buf) \<and>
   ((\<forall>i m. 0 < m \<longrightarrow> 0 < ie_write env i m) \<longrightarrow>
    stdout_of (requests (safe_write env buf s)) = stdout_of (requests s) @ buf)"
  using safe_write_calls safe_write_prefix safe_write_all by blast

text \<open>A kernel that takes two bytes at a time.\<close>

definition demo_init_env :: init_env where
  "demo_init_env =
     \<lparr>ie_write = (\<lambda>i m. min 2 (int m)), ie_mount = (\<lambda>_ _. True), ie_sethostname = True,
      ie_open = (\<lambda>_. False), ie_read = (\<lambda>_ _. []), ie_popen = (\<lambda>_. None), ie_exec = (\<lambda>_ _. True)\<rparr>"

theorem safe_write_delivers_witness:
  "writes (safe_write demo_init_env ''abc'' init_start) \<le> 3 \<and>
   stdout_of (requests (safe_write demo_init_env ''abc'' init_start)) = ''abc''"
  using safe_write_delivers [of demo_init_env "''abc''" init_start]
  by (simp add: demo_init_env_def init_start_def stdout_of_def)

end
