(* ===== verification/Aegis_Threads.thy ===== *)
theory Aegis_Threads
  imports Aegis_Verdicts Aegis_Sysctl
begin

unbundle bit_operations_syntax

text \<open>
  The module with several kernel threads in it at once. The list operations, the sysctl
  handlers and the hooks that touch shared state of \<^verbatim>\<open>aegis_process.c\<close>, \<^verbatim>\<open>aegis_file.c\<close>,
  \<^verbatim>\<open>aegis_audit.c\<close>, \<^verbatim>\<open>aegis_sysctl.c\<close> and \<^verbatim>\<open>aegis_lsm.c\<close> are written again, this
  time as threads: a thread is a tree of steps, and one step is what the code does without
  another thread being able to come in between. A section under a spinlock is one step; so is
  each single read or write of a configuration field or sysctl integer, each atomic
  increment and each log line outside a lock. Running a thread alone gives the sequential
  operation of the component theories. What the control endpoints do before they call a list
  operation touches no shared state, so a control write is the thread of its list operation.
\<close>

section \<open>Threads\<close>

text \<open>
  \<open>Done r\<close> has returned \<open>r\<close>; \<open>Fault\<close> has used memory that was freed; \<open>Hang\<close> is in a
  loop that does not end (the digest of an endless file) and does nothing to shared state.
\<close>

datatype thread =
    Done cret
  | Fault
  | Hang
  | Step "aegis_state \<Rightarrow> thread \<times> aegis_state"

definition test :: "(aegis_state \<Rightarrow> bool) \<Rightarrow> thread \<Rightarrow> thread \<Rightarrow> thread" where
  "test b yes no = Step (\<lambda>s. (if b s then yes else no, s))"

primrec finish :: "(aegis_state \<Rightarrow> aegis_state) list \<Rightarrow> cret \<Rightarrow> thread" where
  "finish [] r = Done r"
| "finish (u # us) r = Step (\<lambda>s. (finish us r, u s))"

text \<open>The feature macro reads the master switch and then, if it is on, the mask.\<close>

definition AEGIS_FEATURE_CHECK_t :: "32 word \<Rightarrow> thread \<Rightarrow> thread \<Rightarrow> thread" where
  "AEGIS_FEATURE_CHECK_t feature yes no =
     test (\<lambda>s. enabled (aegis_cfg s))
       (test (\<lambda>s. features (aegis_cfg s) AND feature \<noteq> 0) yes no) no"

text \<open>A thread that runs with nothing in between, to the point where it takes no more steps.\<close>

primrec alone :: "thread \<Rightarrow> aegis_state \<Rightarrow> thread \<times> aegis_state" where
  "alone (Done r) = (\<lambda>s. (Done r, s))"
| "alone Fault = (\<lambda>s. (Fault, s))"
| "alone Hang = (\<lambda>s. (Hang, s))"
| "alone (Step f) = (\<lambda>s. case (map_prod alone id \<circ> f) s of (run, t) \<Rightarrow> run t)"

lemma alone_Step [simp]: "alone (Step f) s = alone (fst (f s)) (snd (f s))"
  by (simp add: case_prod_beta)

declare alone.simps(4) [simp del]

lemma alone_test [simp]: "alone (test b yes no) s = alone (if b s then yes else no) s"
  by (simp add: test_def)

lemma alone_feature [simp]:
  "alone (AEGIS_FEATURE_CHECK_t f yes no) s = alone (if AEGIS_FEATURE_CHECK f s then yes else no) s"
  by (simp add: AEGIS_FEATURE_CHECK_t_def AEGIS_FEATURE_CHECK_def)

lemma alone_finish [simp]: "alone (finish us r) s = (Done r, fold (\<lambda>u s. u s) us s)"
  by (induction us arbitrary: s) simp_all


section \<open>List operations\<close>

definition aegis_protect_process_add_t :: "bool \<Rightarrow> string option \<Rightarrow> int \<Rightarrow> thread" where
  "aegis_protect_process_add_t kmalloc comm pid =
     (case comm of
        None \<Rightarrow> Done (Inl EINVAL)
      | Some c \<Rightarrow> Step (\<lambda>s.
          (case proc_add_check (c, pid) s of
             Inl e \<Rightarrow> Done (Inl e)
           | Inr _ \<Rightarrow>
               if \<not> kmalloc then Done (Inl ENOMEM)
               else finish
                 [proc_add_commit (proc_new c pid),
                  AEGIS_INFO (''Protected process added: '' @ cstr c @ '' (pid='' @ fmt_d pid @ '')'')] ret0,
           s)))"

definition aegis_protect_process_del_t :: "string option \<Rightarrow> int \<Rightarrow> thread" where
  "aegis_protect_process_del_t comm pid =
     (case comm of
        None \<Rightarrow> Done (Inl EINVAL)
      | Some c \<Rightarrow> Step (\<lambda>s.
          case del_first (proc_hit (c, pid)) (protected_procs s) of
             None \<Rightarrow> (Done (Inl ENOENT), s)
           | Some ps \<Rightarrow>
               (finish [AEGIS_INFO (''Protected process removed: '' @ cstr c @ '' (pid='' @
                  fmt_d pid @ '')'')] ret0,
                s\<lparr>protected_procs := ps, protected_proc_count := protected_proc_count s - 1\<rparr>)))"

text \<open>
  The log line of a file addition reads the flag of the entry after the lock is released. An
  entry is freed by the removal that unlinks it; once it is off the list the read is a fault.
\<close>

definition file_added_log :: "string \<Rightarrow> aegis_protected_file \<Rightarrow> thread" where
  "file_added_log p file = Step (\<lambda>s.
     if file \<in> set (protected_files s)
     then (finish [AEGIS_INFO (''Protected file added: '' @ cstr p @ '' (hash='' @
             (if pf_hash_valid file then ''valid'' else ''pending'') @ '')'')] ret0, s)
     else (Fault, s))"

text \<open>
  The part of a file addition between its two locked sections: the new entry is filled in and
  its digest computed, with no lock held, for as long as the reads of the file take. The reads
  touch the file and the thread's own memory only, so they are one step of their own, before
  and after which the other threads may run; the commit is the next.
\<close>

definition file_digest_t :: "('d, 'p) file_env \<Rightarrow> string \<Rightarrow> thread" where
  "file_digest_t fe p = Step (\<lambda>s.
     (case file_new fe p of
        None \<Rightarrow> Hang
      | Some file \<Rightarrow> Step (\<lambda>s. (file_added_log p file, file_add_commit file s)),
      s))"

definition aegis_protected_file_add_t :: "('d, 'p) file_env \<Rightarrow> string option \<Rightarrow> thread" where
  "aegis_protected_file_add_t fe path =
     (case path of
        None \<Rightarrow> Done (Inl EINVAL)
      | Some p \<Rightarrow> Step (\<lambda>s.
          (case file_add_check p s of
             Inl e \<Rightarrow> Done (Inl e)
           | Inr _ \<Rightarrow> if \<not> fe_kmalloc fe then Done (Inl ENOMEM) else file_digest_t fe p,
           s)))"

definition aegis_protected_file_del_t :: "string option \<Rightarrow> thread" where
  "aegis_protected_file_del_t path =
     (case path of
        None \<Rightarrow> Done (Inl EINVAL)
      | Some p \<Rightarrow> Step (\<lambda>s.
          case del_first (file_hit p) (protected_files s) of
             None \<Rightarrow> (Done (Inl ENOENT), s)
           | Some fs \<Rightarrow>
               (finish [AEGIS_INFO (''Protected file removed: '' @ cstr p)] ret0,
                s\<lparr>protected_files := fs, protected_file_count := protected_file_count s - 1\<rparr>)))"

definition aegis_syscall_block_add_t :: "bool \<Rightarrow> int \<Rightarrow> thread" where
  "aegis_syscall_block_add_t kmalloc nr =
     (if nr < 0 then Done (Inl EINVAL)
      else Step (\<lambda>s.
        (case syscall_add_check nr s of
           Inl e \<Rightarrow> Done (Inl e)
         | Inr _ \<Rightarrow>
             if \<not> kmalloc then Done (Inl ENOMEM)
             else finish
               [syscall_add_commit \<lparr>bs_syscall_nr = nr\<rparr>,
                AEGIS_INFO (''Blocked syscall added: '' @ fmt_d nr)] ret0,
         s)))"

definition aegis_syscall_block_del_t :: "int \<Rightarrow> thread" where
  "aegis_syscall_block_del_t nr = Step (\<lambda>s.
     case del_first (syscall_hit nr) (blocked_syscalls s) of
        None \<Rightarrow> (Done (Inl ENOENT), s)
      | Some scs \<Rightarrow>
          (finish [AEGIS_INFO (''Blocked syscall removed: '' @ fmt_d nr)] ret0,
           s\<lparr>blocked_syscalls := scs, blocked_syscall_count := blocked_syscall_count s - 1\<rparr>))"


section \<open>Sysctl handlers\<close>

text \<open>
  The parts of a handler: \<open>proc_dointvec\<close> accesses the mirror; the commit reads the mirror
  again, stores its value into the configuration field and, for the log line, reads the field.
\<close>

fun knob_store :: "knob \<Rightarrow> int \<Rightarrow> aegis_state \<Rightarrow> aegis_state" where
  "knob_store K_enabled v s = s\<lparr>aegis_enabled := v\<rparr>"
| "knob_store K_features v s = s\<lparr>aegis_features_val := v\<rparr>"
| "knob_store K_ptrace_restrict_all v s = s\<lparr>aegis_ptrace_restrict_all := v\<rparr>"
| "knob_store K_file_integrity_enforce v s = s\<lparr>aegis_file_integrity_enforce := v\<rparr>"
| "knob_store K_file_integrity_log v s = s\<lparr>aegis_file_integrity_log := v\<rparr>"
| "knob_store K_module_loading_denied v s = s\<lparr>aegis_module_loading_denied := v\<rparr>"
| "knob_store K_syscall_audit_enable v s = s\<lparr>aegis_syscall_audit_enable := v\<rparr>"

fun knob_message :: "knob \<Rightarrow> aegis_config \<Rightarrow> string" where
  "knob_message K_enabled c = ''AEGIS '' @ (if enabled c then ''ENABLED'' else ''DISABLED'')"
| "knob_message K_features c = ''Features updated: 0x'' @ fmt_08x (features c)"
| "knob_message K_ptrace_restrict_all c =
     ''Ptrace restriction (all processes): '' @ (if ptrace_restrict_all c then ''ON'' else ''OFF'')"
| "knob_message K_file_integrity_enforce c =
     ''File integrity enforcement: '' @ (if file_integrity_enforce c then ''ON'' else ''OFF'')"
| "knob_message K_file_integrity_log c =
     ''File integrity logging: '' @ (if file_integrity_log c then ''ON'' else ''OFF'')"
| "knob_message K_module_loading_denied c =
     ''Module/kexec loading denial: '' @ (if module_loading_denied c then ''ON'' else ''OFF'')"
| "knob_message K_syscall_audit_enable c =
     ''Syscall auditing: '' @ (if syscall_audit_enable c then ''ON'' else ''OFF'')"

definition knob_log :: "knob \<Rightarrow> thread" where
  "knob_log k = Step (\<lambda>s. (finish [AEGIS_INFO (knob_message k (aegis_cfg s))] ret0, s))"

definition knob_assign :: "knob \<Rightarrow> int \<Rightarrow> thread" where
  "knob_assign k v = Step (\<lambda>s. (knob_log k, s\<lparr>aegis_cfg := knob_set k v (aegis_cfg s)\<rparr>))"

definition knob_commit :: "knob \<Rightarrow> thread" where
  "knob_commit k = Step (\<lambda>s. (knob_assign k (knob_mirror k s), s))"

definition knob_handler_t :: "knob \<Rightarrow> dointvec \<Rightarrow> bool \<Rightarrow> string \<Rightarrow> thread" where
  "knob_handler_t k proc_dointvec wr buffer = Step (\<lambda>s.
     let (ret, v) = proc_dointvec wr buffer (knob_mirror k s)
     in (if wr \<and> ret = ret0 then knob_commit k else Done ret, knob_store k v s))"


section \<open>Deciding hooks\<close>

definition is_process_protected_t :: "task_struct \<Rightarrow> thread \<Rightarrow> thread \<Rightarrow> thread" where
  "is_process_protected_t task yes no =
     AEGIS_FEATURE_CHECK_t AEGIS_FEATURE_PROCESS_PROTECT
       (test (\<lambda>s. list_ex (proc_entry_protects task) (protected_procs s)) yes no) no"

definition is_file_protected_t :: "string \<Rightarrow> thread \<Rightarrow> thread \<Rightarrow> thread" where
  "is_file_protected_t path yes no =
     AEGIS_FEATURE_CHECK_t AEGIS_FEATURE_FILE_INTEGRITY
       (test (\<lambda>s. list_ex (file_hit path) (protected_files s)) yes no) no"

definition is_syscall_blocked_t :: "int \<Rightarrow> thread \<Rightarrow> thread \<Rightarrow> thread" where
  "is_syscall_blocked_t nr yes no =
     AEGIS_FEATURE_CHECK_t AEGIS_FEATURE_SYSCALL_AUDIT
       (test (\<lambda>s. syscall_audit_enable (aegis_cfg s))
         (test (\<lambda>s. list_ex (syscall_hit nr) (blocked_syscalls s)) yes no) no) no"

definition aegis_ptrace_access_check_t :: "'p kenv \<Rightarrow> task_struct \<Rightarrow> 32 word \<Rightarrow> thread" where
  "aegis_ptrace_access_check_t env child mode =
     AEGIS_FEATURE_CHECK_t AEGIS_FEATURE_PTRACE_RESTRICT
       (test (\<lambda>s. ptrace_restrict_all (aegis_cfg s))
         (finish ([AEGIS_STAT_INC ptrace_blocked_update, AEGIS_STAT_INC total_events_update] @
            (if mode AND PTRACE_MODE_NOAUDIT \<noteq> 0 then []
             else [AEGIS_AUDIT (''ptrace BLOCKED: '' @ task_tag (current env) @ '' -> '' @
                     task_tag child @ '' (all ptrace restricted)'')])) (Inl EPERM))
         (AEGIS_FEATURE_CHECK_t AEGIS_FEATURE_PROCESS_PROTECT
           (is_process_protected_t child
             (finish [AEGIS_STAT_INC ptrace_blocked_update, AEGIS_STAT_INC total_events_update,
                AEGIS_AUDIT (''ptrace BLOCKED: '' @ task_tag (current env) @ '' -> PROTECTED '' @
                  task_tag child)] (Inl EPERM))
             (Done ret0))
           (Done ret0)))
       (Done ret0)"

definition aegis_ptrace_traceme_t :: "'p kenv \<Rightarrow> task_struct \<Rightarrow> thread" where
  "aegis_ptrace_traceme_t env parent =
     AEGIS_FEATURE_CHECK_t AEGIS_FEATURE_PTRACE_RESTRICT
       (test (\<lambda>s. ptrace_restrict_all (aegis_cfg s))
         (finish [AEGIS_STAT_INC ptrace_blocked_update, AEGIS_STAT_INC total_events_update,
            AEGIS_AUDIT (''ptrace TRACEME BLOCKED: '' @ task_tag (current env) @ '' from '' @
              task_tag parent)] (Inl EPERM))
         (Done ret0))
       (Done ret0)"

text \<open>What the file hook does once the path is known to be protected.\<close>

definition file_protected_t :: "'p kenv \<Rightarrow> string \<Rightarrow> 32 word \<Rightarrow> thread" where
  "file_protected_t env path_str msk =
     (let audit =
            test (\<lambda>s. file_integrity_log (aegis_cfg s))
              (finish [AEGIS_STAT_INC total_events_update,
                 AEGIS_AUDIT (''file ACCESS: '' @ task_tag (current env) @ '' -> '' @
                   cstr path_str @ '' (mask=0x'' @ fmt_x (unat msk) @ '')'')] ret0)
              (Done ret0)
      in if msk AND (MAY_WRITE OR MAY_APPEND) \<noteq> 0
         then test (\<lambda>s. file_integrity_enforce (aegis_cfg s))
                (finish [AEGIS_STAT_INC file_violations_update, AEGIS_STAT_INC total_events_update,
                   AEGIS_AUDIT (''file WRITE BLOCKED: '' @ task_tag (current env) @ '' -> '' @
                     cstr path_str @ '' (protected)'')] (Inl EACCES))
                audit
         else audit)"

definition aegis_file_permission_t :: "'p kenv \<Rightarrow> 'p kfile \<Rightarrow> 32 word \<Rightarrow> thread" where
  "aegis_file_permission_t env file msk =
     AEGIS_FEATURE_CHECK_t AEGIS_FEATURE_FILE_INTEGRITY
       (test (\<lambda>s. aegis_protected_file_count s = 0)
         (Done ret0)
         (if \<not> get_free_page env then Done ret0
          else
            (case d_path env (f_path file) of
               Inl _ \<Rightarrow> Done ret0
             | Inr path_str \<Rightarrow>
                 is_file_protected_t path_str (file_protected_t env path_str msk) (Done ret0))))
       (Done ret0)"

definition aegis_file_open_t :: "'p kenv \<Rightarrow> 'p kfile \<Rightarrow> thread" where
  "aegis_file_open_t env file =
     (let msk = 0;
          msk = (if f_mode file AND FMODE_WRITE \<noteq> 0 then msk OR MAY_WRITE else msk);
          msk = (if f_mode file AND FMODE_READ \<noteq> 0 then msk OR MAY_READ else msk)
      in if msk = 0 then Done ret0 else aegis_file_permission_t env file msk)"

text \<open>The part of the loading hooks that module control guards.\<close>

definition kernel_read_control_t ::
    "'p kenv \<Rightarrow> 'p kfile option \<Rightarrow> kernel_read_file_id \<Rightarrow> thread" where
  "kernel_read_control_t env file rid =
     AEGIS_FEATURE_CHECK_t AEGIS_FEATURE_MODULE_CONTROL
       (if rid = READING_MODULE
        then test (\<lambda>s. module_loading_denied (aegis_cfg s))
               (case file of
                  None \<Rightarrow> Done (Inl EPERM)
                | Some f \<Rightarrow>
                    if \<not> get_free_page env then Done (Inl ENOMEM)
                    else
                      (case d_path env (f_path f) of
                         Inl _ \<Rightarrow> Done (Inl EPERM)
                       | Inr path_str \<Rightarrow>
                           finish [AEGIS_STAT_INC module_violations_update,
                             AEGIS_STAT_INC total_events_update,
                             AEGIS_AUDIT (''module LOAD BLOCKED: '' @ task_tag (current env) @
                               '' -> '' @ cstr path_str)] (Inl EPERM)))
               (Done ret0)
        else if rid = READING_FIRMWARE
        then test (\<lambda>s. module_loading_denied (aegis_cfg s))
               (finish [AEGIS_STAT_INC module_violations_update, AEGIS_STAT_INC total_events_update,
                  AEGIS_AUDIT (''firmware LOAD BLOCKED: '' @ task_tag (current env))] (Inl EPERM))
               (Done ret0)
        else Done ret0)
       (Done ret0)"

definition aegis_kernel_read_file_t ::
    "'p kenv \<Rightarrow> 'p kfile option \<Rightarrow> kernel_read_file_id \<Rightarrow> bool \<Rightarrow> thread" where
  "aegis_kernel_read_file_t env file rid contents_only =
     test (\<lambda>s. enabled (aegis_cfg s))
       (let nr = aegis_read_id_to_syscall rid; control = kernel_read_control_t env file rid in
        if 0 \<le> nr
        then is_syscall_blocked_t nr
               (finish [AEGIS_STAT_INC syscall_violations_update, AEGIS_STAT_INC total_events_update,
                  AEGIS_AUDIT (''BLOCKED syscall '' @ fmt_d nr @ '' via kernel_read_file (id='' @
                    fmt_d (read_id_nr env rid) @ '')'')] (Inl EPERM))
               control
        else control)
       (Done ret0)"

definition aegis_kernel_load_data_t :: "'p kenv \<Rightarrow> kernel_load_data_id \<Rightarrow> bool \<Rightarrow> thread" where
  "aegis_kernel_load_data_t env lid contents =
     (let blocked =
            finish [AEGIS_STAT_INC syscall_violations_update, AEGIS_STAT_INC total_events_update,
              AEGIS_AUDIT (''BLOCKED syscall via kernel_load_data (id='' @
                fmt_d (load_id_nr env lid) @ '')'')] (Inl EPERM);
          control =
            AEGIS_FEATURE_CHECK_t AEGIS_FEATURE_MODULE_CONTROL
              (if lid = LOADING_MODULE
               then test (\<lambda>s. module_loading_denied (aegis_cfg s))
                      (finish [AEGIS_STAT_INC module_violations_update,
                         AEGIS_STAT_INC total_events_update,
                         AEGIS_AUDIT (''module LOAD DATA BLOCKED: '' @ task_tag (current env))]
                        (Inl EPERM))
                      (Done ret0)
               else Done ret0)
              (Done ret0)
      in test (\<lambda>s. enabled (aegis_cfg s))
           (AEGIS_FEATURE_CHECK_t AEGIS_FEATURE_SYSCALL_AUDIT
             (if lid = LOADING_MODULE then is_syscall_blocked_t NR_init_module blocked control
              else if lid = LOADING_KEXEC_IMAGE then is_syscall_blocked_t NR_kexec_load blocked control
              else control)
             control)
           (Done ret0))"

text \<open>The two hooks that only count.\<close>

definition aegis_task_free_t :: "task_struct \<Rightarrow> thread" where
  "aegis_task_free_t task =
     test (\<lambda>s. enabled (aegis_cfg s)) (finish [AEGIS_STAT_INC total_events_update] ret0) (Done ret0)"

definition aegis_bprm_check_security_t :: thread where
  "aegis_bprm_check_security_t =
     test (\<lambda>s. enabled (aegis_cfg s))
       (AEGIS_FEATURE_CHECK_t AEGIS_FEATURE_SYSCALL_AUDIT
         (test (\<lambda>s. syscall_audit_enable (aegis_cfg s))
           (finish [AEGIS_STAT_INC total_events_update] ret0) (Done ret0))
         (Done ret0))
       (Done ret0)"


section \<open>The calls a thread can be in\<close>

datatype ('d, 'p) kcall =
    C_proc_add bool "string option" int
  | C_proc_del "string option" int
  | C_file_add "('d, 'p) file_env" "string option"
  | C_file_del "string option"
  | C_syscall_add bool int
  | C_syscall_del int
  | C_knob knob dointvec bool string
  | C_ptrace "'p kenv" task_struct "32 word"
  | C_traceme "'p kenv" task_struct
  | C_file_permission "'p kenv" "'p kfile" "32 word"
  | C_file_open "'p kenv" "'p kfile"
  | C_read_file "'p kenv" "'p kfile option" kernel_read_file_id bool
  | C_load_data "'p kenv" kernel_load_data_id bool
  | C_task_free task_struct
  | C_bprm

primrec thread_of :: "('d, 'p) kcall \<Rightarrow> thread" where
  "thread_of (C_proc_add km c p) = aegis_protect_process_add_t km c p"
| "thread_of (C_proc_del c p) = aegis_protect_process_del_t c p"
| "thread_of (C_file_add fe p) = aegis_protected_file_add_t fe p"
| "thread_of (C_file_del p) = aegis_protected_file_del_t p"
| "thread_of (C_syscall_add km nr) = aegis_syscall_block_add_t km nr"
| "thread_of (C_syscall_del nr) = aegis_syscall_block_del_t nr"
| "thread_of (C_knob k dv wr buf) = knob_handler_t k dv wr buf"
| "thread_of (C_ptrace env c m) = aegis_ptrace_access_check_t env c m"
| "thread_of (C_traceme env p) = aegis_ptrace_traceme_t env p"
| "thread_of (C_file_permission env f m) = aegis_file_permission_t env f m"
| "thread_of (C_file_open env f) = aegis_file_open_t env f"
| "thread_of (C_read_file env f i c) = aegis_kernel_read_file_t env f i c"
| "thread_of (C_load_data env i c) = aegis_kernel_load_data_t env i c"
| "thread_of (C_task_free t) = aegis_task_free_t t"
| "thread_of C_bprm = aegis_bprm_check_security_t"

text \<open>The sequential operation of a call; \<open>None\<close> when it does not return.\<close>

primrec call_atomically :: "('d, 'p) kcall \<Rightarrow> aegis_state \<Rightarrow> (cret \<times> aegis_state) option" where
  "call_atomically (C_proc_add km c p) s = Some (aegis_protect_process_add km c p s)"
| "call_atomically (C_proc_del c p) s = Some (aegis_protect_process_del c p s)"
| "call_atomically (C_file_add fe p) s = aegis_protected_file_add fe p s"
| "call_atomically (C_file_del p) s = Some (aegis_protected_file_del p s)"
| "call_atomically (C_syscall_add km nr) s = Some (aegis_syscall_block_add km nr s)"
| "call_atomically (C_syscall_del nr) s = Some (aegis_syscall_block_del nr s)"
| "call_atomically (C_knob k dv wr buf) s = Some (knob_handler k dv wr buf s)"
| "call_atomically (C_ptrace env c m) s = Some (aegis_ptrace_access_check env c m s)"
| "call_atomically (C_traceme env p) s = Some (aegis_ptrace_traceme env p s)"
| "call_atomically (C_file_permission env f m) s = Some (aegis_file_permission env f m s)"
| "call_atomically (C_file_open env f) s = Some (aegis_file_open env f s)"
| "call_atomically (C_read_file env f i c) s = Some (aegis_kernel_read_file env f i c s)"
| "call_atomically (C_load_data env i c) s = Some (aegis_kernel_load_data env i c s)"
| "call_atomically (C_task_free t) s = Some (ret0, aegis_task_free t s)"
| "call_atomically C_bprm s = Some (aegis_bprm_check_security s)"

definition returned :: "thread \<times> aegis_state \<Rightarrow> (cret \<times> aegis_state) option" where
  "returned x = (case fst x of Done r \<Rightarrow> Some (r, snd x) | _ \<Rightarrow> None)"


section \<open>A thread alone is the sequential operation\<close>

lemmas list_thread_defs =
  aegis_protect_process_add_t_def aegis_protect_process_del_t_def aegis_protected_file_add_t_def
  file_digest_t_def aegis_protected_file_del_t_def aegis_syscall_block_add_t_def aegis_syscall_block_del_t_def

lemmas knob_thread_defs = knob_handler_t_def knob_commit_def knob_assign_def knob_log_def

lemmas gate_defs =
  is_process_protected_t_def is_file_protected_t_def is_syscall_blocked_t_def

lemmas hook_thread_defs =
  aegis_ptrace_access_check_t_def aegis_ptrace_traceme_t_def file_protected_t_def
  aegis_file_permission_t_def kernel_read_control_t_def aegis_kernel_read_file_t_def
  aegis_kernel_load_data_t_def aegis_task_free_t_def aegis_bprm_check_security_t_def

lemma returned_simps [simp]:
  "returned (Done r, s) = Some (r, s)" "returned (Fault, s) = None" "returned (Hang, s) = None"
  by (simp_all add: returned_def)

lemma alone_lists:
  "returned (alone (aegis_protect_process_add_t km c p) s) = Some (aegis_protect_process_add km c p s)"
  "returned (alone (aegis_protect_process_del_t c p) s) = Some (aegis_protect_process_del c p s)"
  "returned (alone (aegis_protected_file_add_t fe f) s) = aegis_protected_file_add fe f s"
  "returned (alone (aegis_protected_file_del_t f) s) = Some (aegis_protected_file_del f s)"
  "returned (alone (aegis_syscall_block_add_t km nr) s) = Some (aegis_syscall_block_add km nr s)"
  "returned (alone (aegis_syscall_block_del_t nr) s) = Some (aegis_syscall_block_del nr s)"
  by (simp_all add: list_thread_defs aegis_defs file_added_log_def split: option.split sum.split)

lemma alone_knob:
  "returned (alone (knob_handler_t k dv wr buf) s) = Some (knob_handler k dv wr buf s)"
  by (cases k; cases wr)
    (simp_all add: knob_thread_defs sysctl_defs Let_def case_prod_beta)

lemma alone_gates [simp]:
  "alone (is_process_protected_t task yes no) s =
     alone (if aegis_is_process_protected (Some task) s then yes else no) s"
  "alone (is_file_protected_t path yes no) s =
     alone (if aegis_is_file_protected (Some path) s then yes else no) s"
  "alone (is_syscall_blocked_t nr yes no) s =
     alone (if aegis_is_syscall_blocked nr s then yes else no) s"
  by (simp_all add: gate_defs aegis_is_process_protected_def aegis_is_file_protected_def
      aegis_is_syscall_blocked_def)

lemma alone_hooks:
  "returned (alone (aegis_ptrace_access_check_t env c m) s) = Some (aegis_ptrace_access_check env c m s)"
  "returned (alone (aegis_ptrace_traceme_t env c) s) = Some (aegis_ptrace_traceme env c s)"
  "returned (alone (aegis_file_permission_t env f m) s) = Some (aegis_file_permission env f m s)"
  "returned (alone (aegis_kernel_read_file_t env g i b) s) = Some (aegis_kernel_read_file env g i b s)"
  "returned (alone (aegis_kernel_load_data_t env l b) s) = Some (aegis_kernel_load_data env l b s)"
  "returned (alone (aegis_task_free_t c) s) = Some (ret0, aegis_task_free c s)"
  "returned (alone aegis_bprm_check_security_t s) = Some (aegis_bprm_check_security s)"
  by (simp_all add: hook_thread_defs aegis_task_free_def aegis_bprm_check_security_def hook_branches Let_def split: option.split sum.split)

lemma alone_call: "returned (alone (thread_of c) s) = call_atomically c s"
  by (cases c) (simp_all add: alone_lists alone_knob alone_hooks aegis_file_open_t_def
      aegis_file_open_def Let_def)

end
