(* ===== verification/Aegis_Interleaving.thy ===== *)
theory Aegis_Interleaving
  imports Aegis_Threads Aegis_System
begin

unbundle bit_operations_syntax

text \<open>
  Interleaved threads. A configuration is the shared state and a list of threads; a step lets
  any one thread take its next step. What each step of a thread keeps invariant is carried to
  all interleavings of the calls of the module by the locale \<open>thread_invariant\<close>, interpreted
  here for the bounds that the types of the C program give.
\<close>

section \<open>Interleaving\<close>

inductive mt_step :: "aegis_state \<times> thread list \<Rightarrow> aegis_state \<times> thread list \<Rightarrow> bool" where
  mt_step: "i < length ts \<Longrightarrow> ts ! i = Step f \<Longrightarrow> mt_step (s, ts) (snd (f s), ts[i := fst (f s)])"

inductive_cases mt_stepE: "mt_step (s, ts) (t, us)"

text \<open>Runs of a given number of steps in all of whose states a condition holds.\<close>

inductive mt_run ::
  "(aegis_state \<Rightarrow> bool) \<Rightarrow> aegis_state \<times> thread list \<Rightarrow> nat \<Rightarrow> aegis_state \<times> thread list \<Rightarrow> bool"
  for P c where
  mt_none: "P (fst c) \<Longrightarrow> mt_run P c 0 c"
| mt_next: "mt_run P c n d \<Longrightarrow> mt_step d e \<Longrightarrow> P (fst e) \<Longrightarrow> mt_run P c (Suc n) e"

abbreviation mt_runs :: "aegis_state \<times> thread list \<Rightarrow> nat \<Rightarrow> aegis_state \<times> thread list \<Rightarrow> bool" where
  "mt_runs \<equiv> mt_run (\<lambda>_. True)"

lemma mt_step_length: "mt_step c d \<Longrightarrow> length (snd d) = length (snd c)"
  by (auto elim: mt_step.cases)

lemma mt_run_length: "mt_run P c n d \<Longrightarrow> length (snd d) = length (snd c)"
  by (induction rule: mt_run.induct) (simp_all add: mt_step_length)

lemma mt_run_holds: "mt_run P c n d \<Longrightarrow> P (fst d)"
  by (induction rule: mt_run.induct) simp_all

lemma mt_run_weaken: "mt_run P c n d \<Longrightarrow> (\<And>s. P s \<Longrightarrow> Q s) \<Longrightarrow> mt_run Q c n d"
  by (induction rule: mt_run.induct) (auto intro: mt_run.intros)


section \<open>What steps keep\<close>

declare finish.simps [simp del]

inductive keeps :: "(aegis_state \<Rightarrow> bool) \<Rightarrow> thread \<Rightarrow> bool" for I where
  keeps_done [simp, intro]: "keeps I (Done r)"
| keeps_fault [simp, intro]: "keeps I Fault"
| keeps_hang [simp, intro]: "keeps I Hang"
| keeps_step [intro]: "(\<And>s. I s \<Longrightarrow> I (snd (f s))) \<Longrightarrow> (\<And>s. keeps I (fst (f s))) \<Longrightarrow> keeps I (Step f)"

inductive_cases keeps_StepE: "keeps I (Step f)"

lemma keeps_test [simp, intro]: "keeps I yes \<Longrightarrow> keeps I no \<Longrightarrow> keeps I (test b yes no)"
  by (auto simp: test_def)

lemma keeps_feature [simp, intro]:
  "keeps I yes \<Longrightarrow> keeps I no \<Longrightarrow> keeps I (AEGIS_FEATURE_CHECK_t f yes no)"
  unfolding AEGIS_FEATURE_CHECK_t_def by (intro keeps_test)

lemma keeps_finish: "(\<And>u s. u \<in> set us \<Longrightarrow> I s \<Longrightarrow> I (u s)) \<Longrightarrow> keeps I (finish us r)"
  by (induction us) (auto simp: finish.simps)

lemma keeps_gates [intro]:
  assumes "keeps I yes" "keeps I no"
  shows "keeps I (is_process_protected_t task yes no)" "keeps I (is_file_protected_t path yes no)"
    "keeps I (is_syscall_blocked_t nr yes no)"
  using assms by (auto simp: gate_defs)

lemma mt_step_keeps:
  assumes "mt_step (s, ts) (t, us)" "I s" "list_all (keeps I) ts"
  shows "I t \<and> list_all (keeps I) us"
  using assms(1)
proof (rule mt_stepE)
  fix i f
  assume st: "i < length ts" "ts ! i = Step f" "t = snd (f s)" "us = ts[i := fst (f s)]"
  then have "keeps I (Step f)" using assms(3) by (metis list_all_length)
  then have "I (snd (f s)) \<and> keeps I (fst (f s))" by (rule keeps_StepE) (use assms(2) in blast)
  moreover have "set us \<subseteq> insert (fst (f s)) (set ts)" using st set_update_subset_insert by metis
  ultimately show ?thesis using st assms(3) by (auto simp: list_all_iff)
qed

lemma mt_run_keeps:
  assumes "mt_run P (s, ts) n (t, us)" "I s" "list_all (keeps I) ts"
  shows "mt_run (\<lambda>u. P u \<and> I u) (s, ts) n (t, us) \<and> list_all (keeps I) us"
  using assms(1)
proof (induction n "(t, us)" arbitrary: t us rule: mt_run.induct)
  case mt_none
  then show ?case using assms(2,3) by (auto intro: mt_run.mt_none)
next
  case (mt_next n d)
  obtain v vs where d: "d = (v, vs)" by (cases d)
  with mt_next have run: "mt_run (\<lambda>u. P u \<and> I u) (s, ts) n (v, vs)" and ks: "list_all (keeps I) vs"
    by blast+
  from mt_step_keeps [of v vs t us I] mt_next(3) d mt_run_holds [OF run] ks
  have "I t \<and> list_all (keeps I) us" by simp
  then show ?case using run mt_next(3,4) d by (auto intro: mt_run.mt_next)
qed

locale thread_invariant =
  fixes I :: "aegis_state \<Rightarrow> bool"
    and admits :: "('d, 'p) kcall \<Rightarrow> bool"
  assumes call_keeps: "admits c \<Longrightarrow> keeps I (thread_of c)"
begin

lemma run_invariant:
  assumes "mt_run P (s, map thread_of cs) n (t, us)" "I s" "list_all admits cs"
  shows "mt_run (\<lambda>u. P u \<and> I u) (s, map thread_of cs) n (t, us)" and "I t"
proof -
  have "list_all (keeps I) (map thread_of cs)"
    using assms(3) call_keeps by (auto simp: list_all_iff)
  from mt_run_keeps [OF assms(1,2) this]
  show "mt_run (\<lambda>u. P u \<and> I u) (s, map thread_of cs) n (t, us)" by blast
  from mt_run_holds [OF this] show "I t" by simp
qed

end


text \<open>
  The steps of the hooks count and log, which no condition on the policy notices.
\<close>

definition by_policy :: "(aegis_state \<Rightarrow> bool) \<Rightarrow> bool" where
  "by_policy I \<longleftrightarrow> (\<forall>s t. policy_of s = policy_of t \<longrightarrow> I s \<longrightarrow> I t)"

lemma keeps_books:
  assumes "by_policy I" "\<And>u s. u \<in> set us \<Longrightarrow> policy_of (u s) = policy_of s"
  shows "keeps I (finish us r)"
  by (rule keeps_finish) (metis assms by_policy_def)

lemma keeps_hooks:
  assumes "by_policy I"
  shows "keeps I (aegis_ptrace_access_check_t env c m)" "keeps I (aegis_ptrace_traceme_t env c)"
    "keeps I (aegis_file_permission_t env f msk)" "keeps I (aegis_file_open_t env f)"
    "keeps I (aegis_kernel_read_file_t env g i b)" "keeps I (aegis_kernel_load_data_t env l b)"
    "keeps I (aegis_task_free_t task)" "keeps I aegis_bprm_check_security_t"
proof -
  note books = keeps_books [OF assms]
  show "keeps I (aegis_ptrace_access_check_t env c m)"
    unfolding aegis_ptrace_access_check_t_def
    by (intro keeps_test keeps_feature keeps_gates keeps_done books) (auto split: if_splits)
  show "keeps I (aegis_ptrace_traceme_t env c)"
    unfolding aegis_ptrace_traceme_t_def
    by (intro keeps_test keeps_feature keeps_gates keeps_done books) auto
  have prot: "keeps I (file_protected_t env p m)" for p m
    unfolding file_protected_t_def Let_def
    by (auto intro!: keeps_test keeps_feature books)
  show fp: "keeps I (aegis_file_permission_t env f msk)" for msk
    unfolding aegis_file_permission_t_def
    by (auto intro!: keeps_test keeps_feature keeps_gates prot split: sum.split)
  show "keeps I (aegis_file_open_t env f)"
    unfolding aegis_file_open_t_def Let_def using fp by auto
  have ctl: "keeps I (kernel_read_control_t env g i)"
    unfolding kernel_read_control_t_def
    by (auto intro!: keeps_test keeps_feature books split: option.split sum.split)
  show "keeps I (aegis_kernel_read_file_t env g i b)"
    unfolding aegis_kernel_read_file_t_def Let_def
    by (auto intro!: keeps_test keeps_feature keeps_gates ctl books)
  show "keeps I (aegis_kernel_load_data_t env l b)"
    unfolding aegis_kernel_load_data_t_def Let_def
    by (auto intro!: keeps_test keeps_feature keeps_gates books)
  show "keeps I (aegis_task_free_t task)" "keeps I aegis_bprm_check_security_t"
    unfolding aegis_task_free_t_def aegis_bprm_check_security_t_def
    by (auto intro!: keeps_test keeps_feature books)
qed

text \<open>
  The list operations change one list, in their locked sections; what follows is bookkeeping.
\<close>

lemma keeps_list_ops:
  assumes I: "by_policy I"
  shows "(\<And>s c. comm = Some c \<Longrightarrow> I s \<Longrightarrow> I (proc_add_commit (proc_new c p) s)) \<Longrightarrow>
      keeps I (aegis_protect_process_add_t km comm p)"
    and "(\<And>s. I s \<Longrightarrow> I (snd (aegis_protect_process_del comm p s))) \<Longrightarrow>
      keeps I (aegis_protect_process_del_t comm p)"
    and "(\<And>s f e. path = Some f \<Longrightarrow> file_new fe f = Some e \<Longrightarrow> I s \<Longrightarrow> I (file_add_commit e s)) \<Longrightarrow>
      keeps I (aegis_protected_file_add_t fe path)"
    and "(\<And>s. I s \<Longrightarrow> I (snd (aegis_protected_file_del path s))) \<Longrightarrow>
      keeps I (aegis_protected_file_del_t path)"
    and "(\<And>s. 0 \<le> nr \<Longrightarrow> I s \<Longrightarrow> I (syscall_add_commit \<lparr>bs_syscall_nr = nr\<rparr> s)) \<Longrightarrow>
      keeps I (aegis_syscall_block_add_t km nr)"
    and "(\<And>s. I s \<Longrightarrow> I (snd (aegis_syscall_block_del nr s))) \<Longrightarrow>
      keeps I (aegis_syscall_block_del_t nr)"
proof -
  have unlog: "I (AEGIS_INFO m s) \<longleftrightarrow> I s" for m s
    using I policy_of_log(2) unfolding by_policy_def by metis
  have log: "keeps I (finish [AEGIS_INFO m] r)" for m r
    by (rule keeps_books [OF I]) auto
  have commit: "keeps I (finish [u, AEGIS_INFO m] r)" if "\<And>s. I s \<Longrightarrow> I (u s)" for u m r
    by (rule keeps_finish) (use that unlog in auto)
  have added: "keeps I (file_added_log f e)" for f e
    unfolding file_added_log_def by (rule keeps_step) (simp_all add: log)
  {
    assume "\<And>s c. comm = Some c \<Longrightarrow> I s \<Longrightarrow> I (proc_add_commit (proc_new c p) s)"
    then show "keeps I (aegis_protect_process_add_t km comm p)"
      unfolding aegis_protect_process_add_t_def
      by (auto intro!: keeps_step commit split: option.split sum.split)
  next
    assume "\<And>s. I s \<Longrightarrow> I (snd (aegis_protect_process_del comm p s))"
    then show "keeps I (aegis_protect_process_del_t comm p)"
      unfolding aegis_protect_process_del_t_def aegis_protect_process_del_def
      by (fastforce intro!: keeps_step log simp: unlog split: option.splits)
  next
    assume "\<And>s f e. path = Some f \<Longrightarrow> file_new fe f = Some e \<Longrightarrow> I s \<Longrightarrow> I (file_add_commit e s)"
    then show "keeps I (aegis_protected_file_add_t fe path)"
      unfolding aegis_protected_file_add_t_def file_digest_t_def
      by (auto intro!: keeps_step added split: option.split sum.split)
  next
    assume "\<And>s. I s \<Longrightarrow> I (snd (aegis_protected_file_del path s))"
    then show "keeps I (aegis_protected_file_del_t path)"
      unfolding aegis_protected_file_del_t_def aegis_protected_file_del_def
      by (fastforce intro!: keeps_step log simp: unlog split: option.splits)
  next
    assume "\<And>s. 0 \<le> nr \<Longrightarrow> I s \<Longrightarrow> I (syscall_add_commit \<lparr>bs_syscall_nr = nr\<rparr> s)"
    then show "keeps I (aegis_syscall_block_add_t km nr)"
      unfolding aegis_syscall_block_add_t_def
      by (auto intro!: keeps_step commit split: sum.split)
  next
    assume "\<And>s. I s \<Longrightarrow> I (snd (aegis_syscall_block_del nr s))"
    then show "keeps I (aegis_syscall_block_del_t nr)"
      unfolding aegis_syscall_block_del_t_def aegis_syscall_block_del_def
      by (fastforce intro!: keeps_step log simp: unlog split: option.splits)
  }
qed

text \<open>The commit of a knob stores into one configuration field.\<close>

lemma keeps_knob_commit:
  assumes I: "by_policy I" and store: "\<And>s v. I s \<Longrightarrow> I (s\<lparr>aegis_cfg := knob_set k v (aegis_cfg s)\<rparr>)"
  shows "keeps I (knob_commit k)"
proof -
  have "keeps I (knob_log k)" unfolding knob_log_def by (auto intro!: keeps_step keeps_books [OF I])
  then show ?thesis unfolding knob_commit_def knob_assign_def by (auto intro!: keeps_step store)
qed

section \<open>The types of the C program\<close>

text \<open>
  The bounds the C types give and the model's integers and lists do not have by themselves:
  buffers of their declared size with a terminator inside, 32-bit integers, 32-byte digests,
  and each counter equal to the length of its list.
\<close>

definition c_typed :: "aegis_state \<Rightarrow> bool" where
  "c_typed s \<longleftrightarrow>
     protected_proc_count s = int (length (protected_procs s)) \<and>
     list_all (\<lambda>e. proc_wfe e \<and> int32 (pp_pid e)) (protected_procs s) \<and>
     protected_file_count s = int (length (protected_files s)) \<and>
     list_all (\<lambda>e. file_wfe e \<and> (pf_hash_valid e \<longrightarrow> length (pf_hash e) = AEGIS_HASH_SIZE))
       (protected_files s) \<and>
     blocked_syscall_count s = int (length (blocked_syscalls s)) \<and>
     list_all (\<lambda>e. 0 \<le> bs_syscall_nr e \<and> int32 (bs_syscall_nr e)) (blocked_syscalls s) \<and>
     (\<forall>k. int32 (knob_mirror k s))"

text \<open>What the types give of the arguments of a call and of the code it calls.\<close>

primrec call_typed :: "('d, 'p) kcall \<Rightarrow> bool" where
  "call_typed (C_proc_add km c p) \<longleftrightarrow> int32 p"
| "call_typed (C_proc_del c p) \<longleftrightarrow> True"
| "call_typed (C_file_add fe p) \<longleftrightarrow>
     (\<forall>d h. crypto_shash_final (fe_hash fe) d = Inr h \<longrightarrow> length h = AEGIS_HASH_SIZE)"
| "call_typed (C_file_del p) \<longleftrightarrow> True"
| "call_typed (C_syscall_add km nr) \<longleftrightarrow> int32 nr"
| "call_typed (C_syscall_del nr) \<longleftrightarrow> True"
| "call_typed (C_knob k dv wr buf) \<longleftrightarrow> (\<forall>v. int32 v \<longrightarrow> int32 (snd (dv wr buf v)))"
| "call_typed (C_ptrace env c m) \<longleftrightarrow> True"
| "call_typed (C_traceme env p) \<longleftrightarrow> True"
| "call_typed (C_file_permission env f m) \<longleftrightarrow> True"
| "call_typed (C_file_open env f) \<longleftrightarrow> True"
| "call_typed (C_read_file env f i c) \<longleftrightarrow> True"
| "call_typed (C_load_data env i c) \<longleftrightarrow> True"
| "call_typed (C_task_free t) \<longleftrightarrow> True"
| "call_typed C_bprm \<longleftrightarrow> True"

lemma knob_mirror_by:
  "mirrors_of s = mirrors_of t \<Longrightarrow> knob_mirror k s = knob_mirror k t"
  by (cases k) (simp_all add: mirrors_of_def)

lemma c_typed_by:
  "lists_of s = lists_of t \<Longrightarrow> mirrors_of s = mirrors_of t \<Longrightarrow> c_typed s = c_typed t"
  using knob_mirror_by [of s t] by (simp add: c_typed_def lists_of_def)

lemma c_typed_policy: "by_policy c_typed"
  unfolding by_policy_def using c_typed_by policy_parts by metis

lemma file_new_typed:
  assumes "file_new fe p = Some e"
    and "\<forall>d h. crypto_shash_final (fe_hash fe) d = Inr h \<longrightarrow> length h = AEGIS_HASH_SIZE"
  shows "file_wfe e \<and> (pf_hash_valid e \<longrightarrow> length (pf_hash e) = AEGIS_HASH_SIZE)"
  using fl.built_wfe [OF file_new_built [OF assms(1)]] assms
  by (auto simp: file_new_def aegis_compute_file_hash_def hash_exits Let_def
      split: option.splits sum.splits if_splits)

lemma knob_mirror_frame [simp]:
  "knob_mirror k (s\<lparr>protected_procs := a\<rparr>) = knob_mirror k s"
  "knob_mirror k (s\<lparr>protected_proc_count := n\<rparr>) = knob_mirror k s"
  "knob_mirror k (s\<lparr>protected_files := b\<rparr>) = knob_mirror k s"
  "knob_mirror k (s\<lparr>protected_file_count := n\<rparr>) = knob_mirror k s"
  "knob_mirror k (s\<lparr>blocked_syscalls := c\<rparr>) = knob_mirror k s"
  "knob_mirror k (s\<lparr>blocked_syscall_count := n\<rparr>) = knob_mirror k s"
  "knob_mirror k (s\<lparr>aegis_cfg := cfg\<rparr>) = knob_mirror k s"
  "knob_mirror k (AEGIS_INFO m s) = knob_mirror k s"
  by (cases k; simp add: aegis_log_defs)+

lemma c_typed_del:
  assumes "c_typed s"
  shows "c_typed (snd (aegis_protect_process_del comm p s))"
    "c_typed (snd (aegis_protected_file_del path s))" "c_typed (snd (aegis_syscall_block_del nr s))"
  using assms
  by (auto simp: c_typed_def aegis_protect_process_del_def aegis_protected_file_del_def
      aegis_syscall_block_del_def list_all_append split: option.splits dest!: del_first_Some)

lemma knob_store_mirror:
  "knob_mirror k' (knob_store k v s) = (if k' = k then v else knob_mirror k' s)"
  by (cases k; cases k') simp_all

lemma knob_store_frame [simp]:
  "lists_of (knob_store k v s) = lists_of s" "aegis_cfg (knob_store k v s) = aegis_cfg s"
  by (cases k; simp add: lists_of_def)+

lemma c_typed_store: "c_typed s \<Longrightarrow> int32 v \<Longrightarrow> c_typed (knob_store k v s)"
  using knob_store_frame(1) [of k v s]
  by (simp add: c_typed_def knob_store_mirror lists_of_def)

lemma c_typed_commit:
  assumes "c_typed s"
  shows "int32 p \<Longrightarrow> c_typed (proc_add_commit (proc_new c p) s)"
    and "file_wfe e \<and> (pf_hash_valid e \<longrightarrow> length (pf_hash e) = AEGIS_HASH_SIZE) \<Longrightarrow>
      c_typed (file_add_commit e s)"
    and "0 \<le> nr \<Longrightarrow> int32 nr \<Longrightarrow> c_typed (syscall_add_commit \<lparr>bs_syscall_nr = nr\<rparr> s)"
  using assms proc_new_wfe [of c p]
  by (simp_all add: c_typed_def proc_add_commit_def file_add_commit_def syscall_add_commit_def
      proc_new_def)

lemma call_keeps_types:
  assumes "call_typed c"
  shows "keeps c_typed (thread_of c)"
proof (cases c)
  case (C_knob k dv wr buf)
  have com: "keeps c_typed (knob_commit k)"
    by (rule keeps_knob_commit [OF c_typed_policy]) (simp add: c_typed_def)
  have "int32 (snd (dv wr buf (knob_mirror k s)))" if "c_typed s" for s
    using that assms C_knob by (simp add: c_typed_def)
  with com C_knob show ?thesis
    by (auto simp: knob_handler_t_def Let_def case_prod_beta intro!: keeps_step c_typed_store)
next
  case (C_file_add fe p)
  with assms file_new_typed [of fe] show ?thesis
    by (auto intro!: keeps_list_ops(3) [OF c_typed_policy] c_typed_commit(2))
qed (use assms in \<open>auto intro!: keeps_hooks keeps_list_ops c_typed_policy c_typed_del c_typed_commit\<close>)

interpretation ty: thread_invariant c_typed call_typed
  by unfold_locales (rule call_keeps_types)

end
