(* ===== verification/Aegis_Schedules.thy ===== *)
theory Aegis_Schedules
  imports Aegis_Interleaving
begin

unbundle bit_operations_syntax

text \<open>
  What the schedule of the threads can and cannot change: what a thread returns as long as the
  other threads keep a condition true, how many steps it can take, and runs in which one thread goes ahead of the others.
\<close>

section \<open>What a thread returns\<close>

text \<open>
  As long as every state in which the thread takes a step satisfies \<open>P\<close>, whatever other
  threads do, the thread can end only in a way that \<open>Q\<close> allows.
\<close>

inductive relies :: "(aegis_state \<Rightarrow> bool) \<Rightarrow> (thread \<Rightarrow> bool) \<Rightarrow> thread \<Rightarrow> bool" for P Q where
  relies_done: "Q (Done r) \<Longrightarrow> relies P Q (Done r)"
| relies_fault: "Q Fault \<Longrightarrow> relies P Q Fault"
| relies_hang: "Q Hang \<Longrightarrow> relies P Q Hang"
| relies_step: "(\<And>s. P s \<Longrightarrow> relies P Q (fst (f s))) \<Longrightarrow> relies P Q (Step f)"

inductive_cases relies_StepE: "relies P Q (Step f)"
inductive_simps relies_end [simp]: "relies P Q (Done r)" "relies P Q Fault" "relies P Q Hang"

lemma relies_test:
  assumes "\<And>s. P s \<Longrightarrow> b s \<Longrightarrow> relies P Q yes" "\<And>s. P s \<Longrightarrow> \<not> b s \<Longrightarrow> relies P Q no"
  shows "relies P Q (test b yes no)"
  unfolding test_def by (rule relies_step) (use assms in auto)

text \<open>The two reads of the feature macro may see two states; each can only say no where the macro does.\<close>

lemma relies_feature:
  assumes "relies P Q yes" "\<And>s. P s \<Longrightarrow> \<not> AEGIS_FEATURE_CHECK f s \<Longrightarrow> relies P Q no"
  shows "relies P Q (AEGIS_FEATURE_CHECK_t f yes no)"
  unfolding AEGIS_FEATURE_CHECK_t_def
  by (intro relies_test) (use assms in \<open>auto simp: AEGIS_FEATURE_CHECK_def\<close>)

lemma relies_finish [simp]: "Q (Done r) \<Longrightarrow> relies P Q (finish us r)"
  by (induction us) (auto simp: finish.simps intro: relies.intros)

lemma mt_run_relies:
  assumes "mt_run P (s, ts) n (t, us)" "i < length ts" "relies P Q (ts ! i)"
  shows "relies P Q (us ! i)"
  using assms(1)
proof (induction n "(t, us)" arbitrary: t us rule: mt_run.induct)
  case mt_none
  then show ?case using assms(3) by simp
next
  case (mt_next n d)
  obtain v vs where d: "d = (v, vs)" by (cases d)
  with mt_next have rel: "relies P Q (vs ! i)" and P: "P v"
    using mt_run_holds [of P "(s, ts)" n d] by auto
  have "mt_step (v, vs) (t, us)" using mt_next(3) d by simp
  then show ?case
  proof (rule mt_stepE)
    fix j f
    assume st: "j < length vs" "vs ! j = Step f" "us = vs[j := fst (f v)]"
    show ?thesis
    proof (cases "j = i")
      case True
      with rel st have "relies P Q (Step f)" by simp
      then have "relies P Q (fst (f v))" by (rule relies_StepE) (use P in blast)
      with True st show ?thesis by simp
    next
      case False
      with rel st show ?thesis by simp
    qed
  qed
qed

text \<open>How a thread has ended, once it has; and every thread that takes no step has ended.\<close>

lemma mt_run_ends:
  assumes "mt_run P (s, map thread_of cs) n (t, us)" "i < length cs" "relies P Q (thread_of (cs ! i))"
    and "\<And>f. us ! i \<noteq> Step f"
  shows "Q (us ! i)"
  using mt_run_relies [OF assms(1), of i Q] assms(2-4) by (cases "us ! i") auto

lemma stuck_ended:
  assumes "\<forall>d. \<not> mt_step (t, us) d" "i < length us"
  shows "us ! i \<noteq> Step f"
  using assms mt_step.intros [of i us f t] by blast

lemma relies_file_denied:
  assumes "msk AND (MAY_WRITE OR MAY_APPEND) \<noteq> 0" "get_free_page ke" "d_path ke (f_path f) = Inr path"
  shows "relies (\<lambda>u. AEGIS_FEATURE_CHECK AEGIS_FEATURE_FILE_INTEGRITY u \<and>
      file_integrity_enforce (aegis_cfg u) \<and> list_ex (file_hit path) (protected_files u) \<and>
      protected_file_count u = int (length (protected_files u)))
    (\<lambda>th. th = Done (Inl EACCES)) (aegis_file_permission_t ke f msk)"
  using assms
  by (auto simp: aegis_file_permission_t_def is_file_protected_t_def file_protected_t_def
      aegis_protected_file_count_def intro!: relies_test relies_feature)

lemma relies_file_allowed:
  "relies (\<lambda>u. \<forall>path. d_path ke (f_path f) = Inr path \<longrightarrow> \<not> list_ex (file_hit path) (protected_files u))
    (\<lambda>th. th = Done ret0) (aegis_file_permission_t ke f msk)"
  by (auto simp: aegis_file_permission_t_def is_file_protected_t_def intro!: relies_test relies_feature split: sum.split)

lemma relies_ptrace_denied:
  "relies (\<lambda>u. AEGIS_FEATURE_CHECK AEGIS_FEATURE_PTRACE_RESTRICT u \<and>
      (AEGIS_FEATURE_CHECK AEGIS_FEATURE_PROCESS_PROTECT u \<and>
       list_ex (proc_entry_protects child) (protected_procs u)))
    (\<lambda>th. th = Done (Inl EPERM)) (aegis_ptrace_access_check_t ke child mode)"
  by (auto simp: aegis_ptrace_access_check_t_def is_process_protected_t_def intro!: relies_test relies_feature)

lemma relies_ptrace_allowed:
  "relies (\<lambda>u. \<not> ptrace_restrict_all (aegis_cfg u) \<and>
      \<not> list_ex (proc_entry_protects child) (protected_procs u))
    (\<lambda>th. th = Done ret0) (aegis_ptrace_access_check_t ke child mode)"
  by (auto simp: aegis_ptrace_access_check_t_def is_process_protected_t_def intro!: relies_test relies_feature)

text \<open>
  How calls end: they return, except that an addition of a file may not get out of its digest
  loop, or find its entry freed.
\<close>

definition call_ends :: "('d, 'p) kcall \<Rightarrow> thread \<Rightarrow> bool" where
  "call_ends c th \<longleftrightarrow> (\<exists>r. th = Done r) \<or>
     (\<exists>fe p. c = C_file_add fe (Some p) \<and> (th = Fault \<or> th = Hang \<and> file_new fe p = None))"

lemma relies_gates:
  assumes "relies P Q yes" "relies P Q no"
  shows "relies P Q (is_process_protected_t task yes no)" "relies P Q (is_file_protected_t path yes no)"
    "relies P Q (is_syscall_blocked_t nr yes no)"
  using assms by (auto simp: gate_defs intro!: relies_test relies_feature)

lemma relies_hooks:
  assumes "\<And>r. Q (Done r)"
  shows "relies P Q (aegis_ptrace_access_check_t env c m)" "relies P Q (aegis_ptrace_traceme_t env c)"
    "relies P Q (aegis_file_permission_t env f msk)" "relies P Q (aegis_kernel_read_file_t env g i b)"
    "relies P Q (aegis_kernel_load_data_t env l b)" "relies P Q (aegis_task_free_t task)"
    "relies P Q aegis_bprm_check_security_t"
  using assms
  by (auto simp: hook_thread_defs Let_def intro!: relies_test relies_feature relies_gates split: option.split sum.split)

lemma relies_call_ends: "relies P (call_ends c) (thread_of c)"
proof (cases c)
  case (C_file_add fe path)
  then show ?thesis
    by (auto simp: aegis_protected_file_add_t_def file_digest_t_def file_added_log_def call_ends_def
        intro!: relies_step split: option.split sum.split)
qed (auto simp: list_thread_defs knob_thread_defs aegis_file_open_t_def Let_def
    case_prod_beta call_ends_def intro!: relies_hooks relies_step split: option.split sum.split)


section \<open>How long a thread runs\<close>

inductive bounded :: "nat \<Rightarrow> thread \<Rightarrow> bool" where
  bounded_done [simp]: "bounded n (Done r)"
| bounded_fault [simp]: "bounded n Fault"
| bounded_hang [simp]: "bounded n Hang"
| bounded_step: "(\<And>s. bounded n (fst (f s))) \<Longrightarrow> bounded (Suc n) (Step f)"

inductive_cases bounded_StepE: "bounded n (Step f)"

lemma bounded_Step: "0 < n \<Longrightarrow> (\<And>s. bounded (n - 1) (fst (f s))) \<Longrightarrow> bounded n (Step f)"
  using bounded_step [of "n - 1" f] by simp

lemma bounded_test: "0 < n \<Longrightarrow> bounded (n - 1) yes \<Longrightarrow> bounded (n - 1) no \<Longrightarrow> bounded n (test b yes no)"
  unfolding test_def by (rule bounded_Step) auto

lemma bounded_feature:
  "1 < n \<Longrightarrow> bounded (n - 2) yes \<Longrightarrow> bounded (n - 1) no \<Longrightarrow> bounded (n - 2) no \<Longrightarrow>
   bounded n (AEGIS_FEATURE_CHECK_t f yes no)"
  unfolding AEGIS_FEATURE_CHECK_t_def by (auto intro!: bounded_test simp: numeral_2_eq_2)

lemma bounded_finish: "length us \<le> n \<Longrightarrow> bounded n (finish us r)"
  by (induction us arbitrary: n) (auto simp: finish.simps intro!: bounded_Step)

lemma bounded_mono: "bounded n th \<Longrightarrow> n \<le> m \<Longrightarrow> bounded m th"
proof (induction arbitrary: m rule: bounded.induct)
  case (bounded_step n f)
  then show ?case by (cases m) (auto intro: bounded.bounded_step)
qed simp_all

lemma bounded_gates:
  assumes "bounded (n - 4) yes" "bounded (n - 4) no" "4 \<le> n"
  shows "bounded n (is_process_protected_t task yes no)" "bounded n (is_file_protected_t path yes no)"
    "bounded n (is_syscall_blocked_t nr yes no)"
  using assms unfolding gate_defs
  by (auto intro!: bounded_test bounded_feature intro: bounded_mono)

lemma bounded_hooks:
  "bounded 13 (aegis_ptrace_access_check_t env c m)" "bounded 13 (aegis_ptrace_traceme_t env c)"
  "bounded 13 (aegis_file_permission_t env f msk)" "bounded 13 (aegis_kernel_read_file_t env g i b)"
  "bounded 13 (aegis_kernel_load_data_t env l b)" "bounded 13 (aegis_task_free_t task)"
  "bounded 13 aegis_bprm_check_security_t"
proof -
  show "bounded 13 (aegis_ptrace_access_check_t env c m)"
    unfolding aegis_ptrace_access_check_t_def
    by (intro bounded_test bounded_feature bounded_gates bounded_done bounded_finish; simp)
  show "bounded 13 (aegis_ptrace_traceme_t env c)"
    unfolding aegis_ptrace_traceme_t_def
    by (intro bounded_test bounded_feature bounded_done bounded_finish; simp)
  have prot: "bounded 6 (file_protected_t env p msk)" for p
    unfolding file_protected_t_def Let_def
    by (cases "msk AND (MAY_WRITE OR MAY_APPEND) \<noteq> 0"; simp only: if_True if_False not_False_eq_True)
      (intro bounded_test bounded_feature bounded_done bounded_finish; simp)+
  have "bounded 10 (case d_path env (f_path f) of Inl _ \<Rightarrow> Done ret0
      | Inr p \<Rightarrow> is_file_protected_t p (file_protected_t env p msk) (Done ret0))"
    using prot by (cases "d_path env (f_path f)") (auto intro!: bounded_gates)
  then show "bounded 13 (aegis_file_permission_t env f msk)"
    unfolding aegis_file_permission_t_def
    by (intro bounded_test bounded_feature) (auto intro: bounded_mono)
  have "bounded 4 (case g of None \<Rightarrow> Done (Inl EPERM)
      | Some f \<Rightarrow> if \<not> get_free_page env then Done (Inl ENOMEM)
          else (case d_path env (f_path f) of Inl _ \<Rightarrow> Done (Inl EPERM)
            | Inr p \<Rightarrow> finish [u, v, w p] (Inl EPERM)))" for u v w
    by (auto intro!: bounded_finish split: option.split sum.split)
  then have ctl: "bounded 7 (kernel_read_control_t env g i)"
    unfolding kernel_read_control_t_def
    by (intro bounded_test bounded_feature) (auto intro!: bounded_test bounded_feature bounded_finish intro: bounded_mono)
  then show "bounded 13 (aegis_kernel_read_file_t env g i b)"
    unfolding aegis_kernel_read_file_t_def Let_def
    by (intro bounded_test bounded_feature; (intro bounded_done)?)
      (auto intro!: bounded_gates bounded_finish intro: bounded_mono)
  show "bounded 13 (aegis_kernel_load_data_t env l b)"
    unfolding aegis_kernel_load_data_t_def Let_def
    by (cases l) (auto intro!: bounded_test bounded_feature bounded_gates bounded_finish)
  show "bounded 13 (aegis_task_free_t task)" "bounded 13 aegis_bprm_check_security_t"
    unfolding aegis_task_free_t_def aegis_bprm_check_security_t_def
    by (intro bounded_test bounded_feature bounded_done bounded_finish; simp)+
qed

lemma bounded_lists:
  "bounded 5 (aegis_protect_process_add_t km comm p)" "bounded 5 (aegis_protect_process_del_t comm p)"
  "bounded 5 (aegis_protected_file_add_t fe path)" "bounded 5 (aegis_protected_file_del_t path)"
  "bounded 5 (aegis_syscall_block_add_t km nr)" "bounded 5 (aegis_syscall_block_del_t nr)"
  "bounded 5 (knob_handler_t k dv wr buf)"
  by (auto simp: list_thread_defs knob_thread_defs file_added_log_def Let_def
      case_prod_beta intro!: bounded_Step bounded_finish split: option.split sum.split)

lemma call_bounded: "bounded 13 (thread_of c)"
  by (cases c) (auto intro: bounded_hooks bounded_lists bounded_mono simp: aegis_file_open_t_def Let_def)

lemma mt_run_bounded:
  assumes "mt_run P (s, ts) n (t, us)" "list_all2 bounded ns ts"
  shows "\<exists>ms. list_all2 bounded ms us \<and> n + sum_list ms = sum_list ns"
  using assms(1)
proof (induction n "(t, us)" arbitrary: t us rule: mt_run.induct)
  case mt_none
  then show ?case using assms(2) by auto
next
  case (mt_next n d)
  obtain v vs where d: "d = (v, vs)" by (cases d)
  with mt_next obtain ms where ms: "list_all2 bounded ms vs" "n + sum_list ms = sum_list ns" by blast
  have "mt_step (v, vs) (t, us)" using mt_next(3) d by simp
  then show ?case
  proof (rule mt_stepE)
    fix j f
    assume st: "j < length vs" "vs ! j = Step f" "us = vs[j := fst (f v)]"
    have j: "j < length ms" using ms(1) st(1) by (simp add: list_all2_lengthD)
    have "bounded (ms ! j) (Step f)" using ms(1) j st by (metis list_all2_nthD)
    then obtain m where m: "ms ! j = Suc m" "bounded m (fst (f v))" by (rule bounded_StepE) blast
    have "list_all2 bounded (ms[j := m]) us"
      using ms(1) m(2) st(3) by (simp add: list_all2_update_cong)
    moreover have "sum_list ms = Suc (sum_list (ms[j := m]))"
    proof -
      have "sum_list (ms[j := m]) = sum_list ms + m - ms ! j"
        using sum_list_update [of j ms m] j by simp
      moreover have "ms ! j \<le> sum_list ms" using j by (simp add: elem_le_sum_list)
      ultimately show ?thesis using m(1) by simp
    qed
    ultimately show ?thesis using ms(2) by (intro exI [of _ "ms[j := m]"]) simp
  qed
qed

section \<open>One thread ahead of the others\<close>

text \<open>A schedule names the threads that move, in order; one that has ended stays where it is.\<close>

fun sched :: "nat \<Rightarrow> aegis_state \<times> thread list \<Rightarrow> aegis_state \<times> thread list" where
  "sched i (s, ts) = (case ts ! i of Step f \<Rightarrow> (snd (f s), ts[i := fst (f s)]) | _ \<Rightarrow> (s, ts))"

lemma sched_run:
  assumes "list_all (\<lambda>i. i < length ts) js"
  shows "\<exists>n. mt_runs (s, ts) n (fold sched js (s, ts))"
  using assms
proof (induction js rule: rev_induct)
  case Nil
  then show ?case using mt_none by fastforce
next
  case (snoc i js)
  obtain u us where u: "fold sched js (s, ts) = (u, us)" by (cases "fold sched js (s, ts)")
  from snoc u obtain n where n: "mt_runs (s, ts) n (u, us)" by auto
  have i: "i < length us" using snoc.prems mt_run_length [OF n] by simp
  show ?case
  proof (cases "us ! i")
    case (Step f)
    from mt_next [OF n mt_step [OF i Step]] show ?thesis using u Step by auto
  qed (use n u in auto)
qed

text \<open>The scheduler may let one thread run to its end before any other takes a step.\<close>

lemma mt_run_trans:
  assumes "mt_run P d m e" "mt_run P c n d"
  shows "mt_run P c (n + m) e"
  using assms by (induction rule: mt_run.induct) (auto intro: mt_run.intros)

lemma mt_run_alone:
  assumes "i < length ts" "keeps P (ts ! i)" "P s"
  shows "\<exists>n. mt_run P (s, ts) n (snd (alone (ts ! i) s), ts[i := fst (alone (ts ! i) s)])"
  using assms
proof (induction "ts ! i" arbitrary: ts s)
  case (Step f)
  let ?ts = "ts[i := fst (f s)]"
  have th: "ts ! i = Step f" using Step.hyps(2) by simp
  have P: "P (snd (f s))" "keeps P (fst (f s))"
    using Step.prems th by (auto elim: keeps_StepE)
  have one: "mt_run P (s, ts) (Suc 0) (snd (f s), ?ts)"
    by (rule mt_next [OF mt_none mt_step [OF Step.prems(1) th]]) (use P Step.prems in simp_all)
  have "\<exists>n. mt_run P (snd (f s), ?ts) n
      (snd (alone (?ts ! i) (snd (f s))), ?ts[i := fst (alone (?ts ! i) (snd (f s)))])"
    by (rule Step.hyps(1) [of "f s"])
      (use Step.prems(1) P in \<open>auto simp: prod_set_simps intro: fsts.intros\<close>)
  then obtain n where "mt_run P (snd (f s), ?ts) n
      (snd (alone (?ts ! i) (snd (f s))), ?ts[i := fst (alone (?ts ! i) (snd (f s)))])" ..
  from mt_run_trans [OF this one] show ?case
    using Step.prems(1) by (auto simp: th)
qed (metis alone.simps(1-3) fst_conv snd_conv list_update_id mt_none)+

lemma run_one_call:
  assumes "keeps P (thread_of c)" "P s" "call_atomically c s = Some (r, t)"
  shows "\<exists>n. mt_run P (s, map thread_of [c]) n (t, [Done r])"
proof -
  have "alone (thread_of c) s = (Done r, t)"
    using alone_call [of c s] assms(3)
    by (cases "alone (thread_of c) s") (auto simp: returned_def split: thread.splits)
  with mt_run_alone [of 0 "[thread_of c]" P s] assms(1,2) show ?thesis by simp
qed

lemma policy_keys:
  assumes "policy_of s = policy_of t"
  shows "file_keys s = file_keys t" "proc_keys s = proc_keys t"
  using policy_of_eqD(1) [OF assms] by (simp_all add: lists_of_def file_keys_def proc_keys_def)

text \<open>Instances for evaluation.\<close>

lemma statics_typed: "c_typed aegis_statics"
proof -
  have "int32 (knob_mirror k aegis_statics)" for k
    by (cases k) (simp_all add: aegis_statics_def int32_def aegis_features)
  then show ?thesis by (simp add: c_typed_def)
qed

lemma demo_typed: "c_typed demo_state"
proof -
  have "int32 (knob_mirror k demo_state)" for k
    using statics_typed knob_mirror_by [of demo_state aegis_statics k]
    by (simp add: c_typed_def demo_state_def mirrors_of_def)
  then show ?thesis
    using demo_wf
    by (simp add: c_typed_def procs_wf_def files_wf_def reg_wf_def demo_state_def proc_new_def int32_def)
qed

definition demo_calls :: "(8 word list, string) kcall list" where
  "demo_calls = [C_syscall_add True 5, C_syscall_add True 5]"

lemma demo_calls_run:
  "\<exists>n. mt_runs (aegis_statics, map thread_of demo_calls) n
     (fold sched [0, 1, 0, 1, 0, 1] (aegis_statics, map thread_of demo_calls))"
  by (rule sched_run) (simp add: demo_calls_def)

lemma demo_calls_end:
  "snd (fold sched [0, 1, 0, 1, 0, 1] (aegis_statics, map thread_of demo_calls)) = [Done ret0, Done ret0]"
  "length (blocked_syscalls (fst (fold sched [0, 1, 0, 1, 0, 1] (aegis_statics, map thread_of demo_calls)))) = 2"
  by (simp_all add: demo_calls_def aegis_syscall_block_add_t_def syscall_add_check_def
      syscall_add_commit_def AEGIS_MAX_BLOCKED_SYSCALLS_def finish.simps)

end
