(* ===== verification/Aegis_Concurrency.thy ===== *)
theory Aegis_Concurrency
  imports Aegis_Schedules
begin

unbundle bit_operations_syntax

text \<open>
  What holds when the calls of the module run on several processors at once: the properties of
  the threads of \<open>Aegis_Threads\<close> under every schedule.
\<close>

section \<open>Properties\<close>

text \<open>
  C10: C types in every interleaving. Whatever calls run concurrently and however their steps
  interleave, from a state that respects the C types the lists keep names and paths of their
  declared size with a terminator, 32-bit numbers and digests of 32 bytes, each counter equals
  the length of its list and every sysctl integer is a 32-bit integer.
\<close>

theorem interleavings_keep_c_types:
  assumes "mt_runs (s, map thread_of cs) n (t, us)" and "c_typed s" and "list_all call_typed cs"
  shows "c_typed t"
  by (rule ty.run_invariant(2) [OF assms])

theorem interleavings_keep_c_types_witness:
  "c_typed aegis_statics \<and> list_all call_typed demo_calls \<and>
   (\<exists>n t us. mt_runs (aegis_statics, map thread_of demo_calls) n (t, us) \<and>
      length (blocked_syscalls t) = 2 \<and> c_typed t)"
proof -
  have calls: "list_all call_typed demo_calls" by (simp add: demo_calls_def int32_def)
  obtain n t us where "mt_runs (aegis_statics, map thread_of demo_calls) n (t, us)"
    and "length (blocked_syscalls t) = 2"
    using demo_calls_run demo_calls_end(2) by (metis prod.collapse)
  with interleavings_keep_c_types [OF this(1) statics_typed calls] show ?thesis
    using statics_typed calls by blast
qed

text \<open>
  Every call comes to an end under every schedule. A run of concurrent calls has at most 13
  steps per call, and when no thread can take a step every call has returned, except an addition
  of a file whose digest loop does not end or whose entry was removed before it was logged.
\<close>

lemma every_schedule_ends:
  assumes "mt_runs (s, map thread_of cs) n (t, us)"
  shows "n \<le> 13 * length cs \<and>
    ((\<forall>d. \<not> mt_step (t, us) d) \<longrightarrow> (\<forall>i<length cs. call_ends (cs ! i) (us ! i)))"
proof (intro conjI impI allI)
  have "list_all2 bounded (replicate (length cs) 13) (map thread_of cs)"
    by (simp add: list_all2_conv_all_nth call_bounded)
  from mt_run_bounded [OF assms this] show "n \<le> 13 * length cs" by (auto simp: sum_list_replicate)
next
  fix i
  assume stuck: "\<forall>d. \<not> mt_step (t, us) d" and i: "i < length cs"
  have "length us = length cs" using mt_run_length [OF assms] by simp
  with i have "us ! i \<noteq> Step f" for f using stuck_ended [OF stuck] by simp
  then show "call_ends (cs ! i) (us ! i)"
    using mt_run_ends [OF assms i relies_call_ends] by blast
qed

text \<open>
  C6: No window in the file hook. When the hook gets the page it needs and \<open>d_path\<close> gives the
  path of the file (without either it allows the access), then while other threads add, remove,
  count and reconfigure, as long as the path stays on the list and the feature and its
  enforcement stay on, a write or append to the file is denied; as long as the path is not on the
  list, it is allowed.
\<close>

theorem write_verdict_under_interleaving:
  assumes "c_typed s" and "list_all call_typed cs" and "i < length cs"
    and "cs ! i = C_file_permission ke f msk" and "msk AND (MAY_WRITE OR MAY_APPEND) \<noteq> 0"
    and "get_free_page ke" and "d_path ke (f_path f) = Inr path" and "us ! i = Done r"
  shows "(mt_run (\<lambda>u. AEGIS_FEATURE_CHECK AEGIS_FEATURE_FILE_INTEGRITY u \<and>
             file_integrity_enforce (aegis_cfg u) \<and> cstr path \<in> file_keys u)
           (s, map thread_of cs) n (t, us) \<longrightarrow> r = Inl EACCES) \<and>
         (mt_run (\<lambda>u. cstr path \<notin> file_keys u) (s, map thread_of cs) n (t, us) \<longrightarrow> r = ret0)"
proof (intro conjI impI)
  have hit: "list_ex (file_hit path) (protected_files u) \<longleftrightarrow> cstr path \<in> file_keys u"
    if "c_typed u" for u
  proof -
    have "list_all file_wfe (protected_files u)" using that by (auto simp: c_typed_def list_all_iff)
    from fl.hit_iff_key [OF this] show ?thesis by (simp add: file_keys_def)
  qed
  have count: "c_typed u \<Longrightarrow> protected_file_count u = int (length (protected_files u))" for u
    by (simp add: c_typed_def)
  have fin: "\<And>g. us ! i \<noteq> Step g" using assms(8) by simp
  {
    assume "mt_run (\<lambda>u. AEGIS_FEATURE_CHECK AEGIS_FEATURE_FILE_INTEGRITY u \<and>
      file_integrity_enforce (aegis_cfg u) \<and> cstr path \<in> file_keys u) (s, map thread_of cs) n (t, us)"
    from ty.run_invariant(1) [OF this assms(1,2)]
    have "mt_run (\<lambda>u. AEGIS_FEATURE_CHECK AEGIS_FEATURE_FILE_INTEGRITY u \<and>
      file_integrity_enforce (aegis_cfg u) \<and> list_ex (file_hit path) (protected_files u) \<and>
      protected_file_count u = int (length (protected_files u))) (s, map thread_of cs) n (t, us)"
      by (rule mt_run_weaken) (auto simp: hit count)
    from mt_run_ends [OF this assms(3) _ fin] relies_file_denied [OF assms(5-7)]
    show "r = Inl EACCES" using assms(4,8) by fastforce
  next
    assume "mt_run (\<lambda>u. cstr path \<notin> file_keys u) (s, map thread_of cs) n (t, us)"
    from ty.run_invariant(1) [OF this assms(1,2)]
    have "mt_run (\<lambda>u. \<forall>path. d_path ke (f_path f) = Inr path \<longrightarrow>
      \<not> list_ex (file_hit path) (protected_files u)) (s, map thread_of cs) n (t, us)"
      by (rule mt_run_weaken) (simp add: hit assms(7))
    from mt_run_ends [OF this assms(3) _ fin] relies_file_allowed
    show "r = ret0" using assms(4,8) by fastforce
  }
qed

theorem write_verdict_under_interleaving_witness:
  "\<exists>n t us r. mt_run (\<lambda>u. AEGIS_FEATURE_CHECK AEGIS_FEATURE_FILE_INTEGRITY u \<and>
       file_integrity_enforce (aegis_cfg u) \<and> cstr ''/etc/shadow'' \<in> file_keys u)
     (demo_state, map thread_of [C_file_permission demo_kenv \<lparr>f_path = ''/etc/shadow'', f_mode = 2\<rparr> MAY_WRITE
        :: (8 word list, string) kcall]) n (t, us) \<and>
     us ! 0 = Done r \<and> r = Inl EACCES"
proof -
  let ?P = "\<lambda>u. AEGIS_FEATURE_CHECK AEGIS_FEATURE_FILE_INTEGRITY u \<and>
    file_integrity_enforce (aegis_cfg u) \<and> cstr ''/etc/shadow'' \<in> file_keys u"
  let ?c = "C_file_permission demo_kenv \<lparr>f_path = ''/etc/shadow'', f_mode = 2\<rparr> MAY_WRITE
    :: (8 word list, string) kcall"
  have P: "by_policy ?P"
    unfolding by_policy_def
    using feature_check_policy policy_of_eqD(5) policy_keys(1) by blast
  have "?P demo_state" by (simp add: demo_keys demo_cfg aegis_cfg_init_def cstr_Cons)
  moreover have "keeps ?P (thread_of ?c)" using keeps_hooks(3) [OF P] by simp
  moreover obtain r t where "call_atomically ?c demo_state = Some (r, t)"
    by (metis call_atomically.simps(10) prod.collapse)
  ultimately obtain n where run: "mt_run ?P (demo_state, map thread_of [?c]) n (t, [Done r])"
    using run_one_call [of ?P ?c demo_state r t] by blast
  from write_verdict_under_interleaving [of demo_state "[?c]" 0 demo_kenv _ MAY_WRITE "''/etc/shadow''" "[Done r]" r n t]
  have "r = Inl EACCES" using demo_typed run by (auto simp: demo_kenv_def mode_bits)
  with run show ?thesis by (intro exI conjI) auto
qed

text \<open>
  C7: No window in the ptrace hook. As long as the list protects the target and the two features
  stay on, an attachment that runs concurrently with anything is denied; as long as the target is
  not protected and ptrace is not restricted altogether, it is allowed.
\<close>

theorem attach_verdict_under_interleaving:
  assumes "c_typed s" and "list_all call_typed cs" and "i < length cs"
    and "cs ! i = C_ptrace ke child mode" and "us ! i = Done r"
  shows "(mt_run (\<lambda>u. AEGIS_FEATURE_CHECK AEGIS_FEATURE_PTRACE_RESTRICT u \<and>
             AEGIS_FEATURE_CHECK AEGIS_FEATURE_PROCESS_PROTECT u \<and> protects_task (proc_keys u) child)
           (s, map thread_of cs) n (t, us) \<longrightarrow> r = Inl EPERM) \<and>
         (mt_run (\<lambda>u. \<not> ptrace_restrict_all (aegis_cfg u) \<and> \<not> protects_task (proc_keys u) child)
           (s, map thread_of cs) n (t, us) \<longrightarrow> r = ret0)"
proof (intro conjI impI)
  have hit: "list_ex (proc_entry_protects child) (protected_procs u) \<longleftrightarrow> protects_task (proc_keys u) child"
    if "c_typed u" for u
  proof -
    have "list_all proc_wfe (protected_procs u)" using that by (auto simp: c_typed_def list_all_iff)
    from list_ex_protects [OF this] show ?thesis
      by (auto simp: proc_keys_def protects_task_def case_prod_beta)
  qed
  have fin: "\<And>g. us ! i \<noteq> Step g" using assms(5) by simp
  {
    assume "mt_run (\<lambda>u. AEGIS_FEATURE_CHECK AEGIS_FEATURE_PTRACE_RESTRICT u \<and>
      AEGIS_FEATURE_CHECK AEGIS_FEATURE_PROCESS_PROTECT u \<and> protects_task (proc_keys u) child)
      (s, map thread_of cs) n (t, us)"
    from ty.run_invariant(1) [OF this assms(1,2)]
    have "mt_run (\<lambda>u. AEGIS_FEATURE_CHECK AEGIS_FEATURE_PTRACE_RESTRICT u \<and>
      AEGIS_FEATURE_CHECK AEGIS_FEATURE_PROCESS_PROTECT u \<and>
      list_ex (proc_entry_protects child) (protected_procs u)) (s, map thread_of cs) n (t, us)"
      by (rule mt_run_weaken) (simp add: hit)
    from mt_run_ends [OF this assms(3) _ fin] relies_ptrace_denied
    show "r = Inl EPERM" using assms(4,5) by fastforce
  next
    assume "mt_run (\<lambda>u. \<not> ptrace_restrict_all (aegis_cfg u) \<and> \<not> protects_task (proc_keys u) child)
      (s, map thread_of cs) n (t, us)"
    from ty.run_invariant(1) [OF this assms(1,2)]
    have "mt_run (\<lambda>u. \<not> ptrace_restrict_all (aegis_cfg u) \<and>
      \<not> list_ex (proc_entry_protects child) (protected_procs u)) (s, map thread_of cs) n (t, us)"
      by (rule mt_run_weaken) (simp add: hit)
    from mt_run_ends [OF this assms(3) _ fin] relies_ptrace_allowed
    show "r = ret0" using assms(4,5) by fastforce
  }
qed

theorem attach_verdict_under_interleaving_witness:
  "\<exists>n t us r. mt_run (\<lambda>u. AEGIS_FEATURE_CHECK AEGIS_FEATURE_PTRACE_RESTRICT u \<and>
       AEGIS_FEATURE_CHECK AEGIS_FEATURE_PROCESS_PROTECT u \<and> protects_task (proc_keys u) demo_sshd)
     (demo_state, map thread_of [C_ptrace demo_kenv demo_sshd 0 :: (8 word list, string) kcall]) n (t, us) \<and>
     us ! 0 = Done r \<and> r = Inl EPERM"
proof -
  let ?P = "\<lambda>u. AEGIS_FEATURE_CHECK AEGIS_FEATURE_PTRACE_RESTRICT u \<and>
    AEGIS_FEATURE_CHECK AEGIS_FEATURE_PROCESS_PROTECT u \<and> protects_task (proc_keys u) demo_sshd"
  let ?c = "C_ptrace demo_kenv demo_sshd 0 :: (8 word list, string) kcall"
  have P: "by_policy ?P"
    unfolding by_policy_def
    using feature_check_policy policy_keys(2) by metis
  have "?P demo_state" by (simp add: demo_keys protects_task_def demo_sshd_def cstr_Cons)
  moreover have "keeps ?P (thread_of ?c)" using keeps_hooks(1) [OF P] by simp
  moreover obtain r t where "call_atomically ?c demo_state = Some (r, t)"
    by (metis call_atomically.simps(8) prod.collapse)
  ultimately obtain n where run: "mt_run ?P (demo_state, map thread_of [?c]) n (t, [Done r])"
    using run_one_call [of ?P ?c demo_state r t] by blast
  from attach_verdict_under_interleaving [of demo_state "[?c]" 0 demo_kenv demo_sshd 0 "[Done r]" r n t]
  have "r = Inl EPERM" using demo_typed run by auto
  with run show ?thesis by (intro exI conjI) auto
qed

text \<open>
  C28: The log line of a file addition reads freed memory. The addition of a path and its removal
  can interleave so that the removal succeeds, freeing the entry, before the addition reads the
  entry's flag for its log line.
\<close>

theorem file_add_reads_freed_entry:
  assumes "file_add_check p s = ret0" and "fe_kmalloc fe" and "file_new fe p = Some e" and "file_valid p"
  shows "\<exists>n t. mt_runs (s, map thread_of [C_file_add fe (Some p), C_file_del (Some p)]) n
    (t, [Fault, Done ret0])"
proof -
  let ?log = "AEGIS_INFO (''Protected file removed: '' @ cstr p)"
  have no: "\<not> list_ex (file_hit p) (protected_files s)" using assms(1) by (simp add: fl.check_ok_iff)
  have hit: "file_hit p e"
    using fl.hit_key [OF fl.built_wfe] fl.built_key file_new_built [OF assms(3)] assms(4) by blast
  have del: "del_first (file_hit p) (protected_files (file_add_commit e s)) = Some (protected_files s)"
    using no hit by (simp add: file_add_commit_def del_first_append_last)
  have gone: "e \<notin> set (protected_files s)" using no hit by (auto simp: list_ex_iff)
  have "fold sched [0, 0, 0, 1, 1, 0] (s, [aegis_protected_file_add_t fe (Some p), aegis_protected_file_del_t (Some p)]) =
      (?log ((file_add_commit e s)\<lparr>protected_files := protected_files s,
        protected_file_count := protected_file_count (file_add_commit e s) - 1\<rparr>), [Fault, Done ret0])"
    using assms(1-3) del gone
    by (simp add: aegis_protected_file_add_t_def file_digest_t_def aegis_protected_file_del_t_def file_added_log_def
        finish.simps)
  then show ?thesis
    using sched_run [of "[aegis_protected_file_add_t fe (Some p), aegis_protected_file_del_t (Some p)]"
        "[0, 0, 0, 1, 1, 0]" s] by auto
qed

theorem file_add_reads_freed_entry_witness:
  "\<exists>n t. mt_runs (aegis_statics, map thread_of
     [C_file_add (demo_fe (chunk_reader [7, 8])) (Some ''/etc/shadow''), C_file_del (Some ''/etc/shadow'')])
     n (t, [Fault, Done ret0])"
proof -
  have "file_new (demo_fe (chunk_reader [7, 8])) ''/etc/shadow'' \<noteq> None"
    using file_add_returns [of "demo_fe (chunk_reader [7, 8])" "''/etc/shadow''" aegis_statics]
      reads_file_finite [OF chunk_reader_reads, of "[7, 8]"]
    by (auto simp: aegis_protected_file_add_def file_add_check_def AEGIS_MAX_PROTECTED_FILES_def
        split: option.splits)
  then obtain e where "file_new (demo_fe (chunk_reader [7, 8])) ''/etc/shadow'' = Some e" by auto
  then show ?thesis
    by (intro file_add_reads_freed_entry)
      (simp_all add: file_add_check_def AEGIS_MAX_PROTECTED_FILES_def file_valid_def cstr_Cons AEGIS_PATH_LEN_def)
qed

end
