(* ===== verification/Aegis_Rely.thy ===== *)
theory Aegis_Rely
  imports Aegis_Schedules
begin

text \<open>
  Rely and guarantee for threads. A thread meets a contract when, as long as the other threads
  change the state only within the rely, each of its own steps is within the guarantee and it
  ends as the postcondition says. The locale \<open>rely_guarantee\<close> is the interface: relies and
  guarantees are indexed by what a thread is responsible for, and the guarantee of one is within
  the rely of every independent other; in it, contracts of single threads become facts about all
  interleavings.
\<close>

section \<open>Contracts of threads\<close>

text \<open>Induction over the steps of a thread.\<close>

lemma thread_steps_induct [case_names Done Fault Hang Step]:
  assumes "\<And>r. P (Done r)" "P Fault" "P Hang" "\<And>f. (\<And>s. P (fst (f s))) \<Longrightarrow> P (Step f)"
  shows "P th"
proof (induction th)
  case (Step f)
  show ?case
    by (rule assms(4), rule Step [of "f s" for s]) (auto simp: prod_set_simps intro: fsts.intros)
qed (use assms in auto)

inductive meets ::
  "(aegis_state \<Rightarrow> aegis_state \<Rightarrow> bool) \<Rightarrow> (aegis_state \<Rightarrow> aegis_state \<Rightarrow> bool) \<Rightarrow>
   (aegis_state \<Rightarrow> thread \<Rightarrow> bool) \<Rightarrow> aegis_state \<Rightarrow> thread \<Rightarrow> bool"
  for R G Q where
  meets_done: "(\<And>t. R s t \<Longrightarrow> Q t (Done r)) \<Longrightarrow> meets R G Q s (Done r)"
| meets_fault: "(\<And>t. R s t \<Longrightarrow> Q t Fault) \<Longrightarrow> meets R G Q s Fault"
| meets_hang: "(\<And>t. R s t \<Longrightarrow> Q t Hang) \<Longrightarrow> meets R G Q s Hang"
| meets_step: "(\<And>t. R s t \<Longrightarrow> G t (snd (f t)) \<and> meets R G Q (snd (f t)) (fst (f t))) \<Longrightarrow>
     meets R G Q s (Step f)"

inductive_cases meets_StepE: "meets R G Q s (Step f)"
inductive_cases meets_DoneE: "meets R G Q s (Done r)"
inductive_cases meets_FaultE: "meets R G Q s Fault"
inductive_cases meets_HangE: "meets R G Q s Hang"

text \<open>What the others do within the rely does not matter.\<close>

lemma meets_env:
  assumes "meets R G Q s th" "R s t" "\<And>x y z. R x y \<Longrightarrow> R y z \<Longrightarrow> R x z"
  shows "meets R G Q t th"
  using assms(1)
proof cases
  case (meets_step f)
  have "meets R G Q t (Step f)"
    by (rule meets.meets_step) (use meets_step(2) assms(2,3) in blast)
  then show ?thesis using meets_step(1) by simp
qed (use assms(2,3) in \<open>auto intro!: meets.intros\<close>)

lemma meets_ended:
  assumes "meets R G Q s th" "R s s" "\<And>f. th \<noteq> Step f"
  shows "Q s th"
  using assms by (cases rule: meets.cases) auto

lemma meets_weaken:
  assumes "meets R G Q s th" "\<And>t u. Q t u \<Longrightarrow> Q' t u"
  shows "meets R G Q' s th"
  using assms by (induction rule: meets.induct) (auto intro: meets.intros)

text \<open>A thread that returns after steps the guarantee allows.\<close>

lemma meets_finish:
  assumes "\<And>u t. u \<in> set us \<Longrightarrow> G t (u t)" "\<And>t. Q t (Done r)"
  shows "meets R G Q s (finish us r)"
  using assms(1)
proof (induction us arbitrary: s)
  case Nil
  show ?case using assms(2) by (simp add: finish.simps meets_done)
next
  case (Cons u us)
  then show ?case by (auto simp: finish.simps intro!: meets_step)
qed

text \<open>A thread whose steps keep what a view shows, when the guarantee asks for no more.\<close>

lemma keeps_meets:
  assumes "\<And>V. keeps (\<lambda>s. view s = V) th" "\<And>s t. view t = view s \<Longrightarrow> G s t"
  shows "meets R G (\<lambda>_ _. True) s th"
  using assms(1)
proof (induction th arbitrary: s rule: thread_steps_induct)
  case (Step f)
  show ?case
  proof (rule meets_step, rule conjI)
    fix t
    have st: "view (snd (f t)) = view t \<and> keeps (\<lambda>s. view s = V) (fst (f t))" for V
      using Step.prems [of "view t"] Step.prems [of V] by (auto elim!: keeps_StepE)
    then show "G t (snd (f t))" using assms(2) by blast
    show "meets R G (\<lambda>_ _. True) (snd (f t)) (fst (f t))" by (rule Step.IH) (use st in blast)
  qed
qed (auto intro: meets.intros)


section \<open>Parallel composition\<close>

locale rely_guarantee =
  fixes R G :: "'a \<Rightarrow> aegis_state \<Rightarrow> aegis_state \<Rightarrow> bool"
    and indep :: "'a \<Rightarrow> 'a \<Rightarrow> bool"
  assumes rely_refl: "R a s s"
    and rely_trans: "R a s t \<Longrightarrow> R a t u \<Longrightarrow> R a s u"
    and guarantee_rely: "indep a b \<Longrightarrow> G a s t \<Longrightarrow> R b s t"
begin

lemma step_meets:
  assumes "mt_step (s, ts) (t, us)"
    and "\<And>i. i < length ts \<Longrightarrow> meets (R (a i)) (G (a i)) (Q i) s (ts ! i)"
    and "\<And>i j. i < length ts \<Longrightarrow> j < length ts \<Longrightarrow> i \<noteq> j \<Longrightarrow> indep (a i) (a j)"
  shows "(\<exists>j<length ts. G (a j) s t) \<and>
    (\<forall>i<length us. meets (R (a i)) (G (a i)) (Q i) t (us ! i))"
  using assms(1)
proof (rule mt_stepE)
  fix j f
  assume st: "j < length ts" "ts ! j = Step f" "t = snd (f s)" "us = ts[j := fst (f s)]"
  from assms(2) [OF st(1)] st(2) have "meets (R (a j)) (G (a j)) (Q j) s (Step f)" by simp
  then have own: "G (a j) s t" "meets (R (a j)) (G (a j)) (Q j) t (fst (f s))"
    by (auto elim!: meets_StepE simp: rely_refl st(3))
  have "meets (R (a i)) (G (a i)) (Q i) t (us ! i)" if "i < length us" for i
  proof (cases "i = j")
    case True
    then show ?thesis using own(2) st by simp
  next
    case False
    with that st assms(3) [of j i] own(1) have "R (a i) s t"
      by (intro guarantee_rely [of "a j"]) auto
    with assms(2) [of i] that False st show ?thesis
      by (auto intro: meets_env rely_trans)
  qed
  then show ?thesis using own(1) st(1) by blast
qed

text \<open>
  At every point of a run each thread still meets its contract, and the run as a whole stays
  within any preorder that holds all guarantees.
\<close>

lemma run_meets:
  assumes "mt_run P (s, ts) n (t, us)"
    and "\<And>i. i < length ts \<Longrightarrow> meets (R (a i)) (G (a i)) (Q i) s (ts ! i)"
    and "\<And>i j. i < length ts \<Longrightarrow> j < length ts \<Longrightarrow> i \<noteq> j \<Longrightarrow> indep (a i) (a j)"
    and "\<And>x. W x x" "\<And>x y z. W x y \<Longrightarrow> W y z \<Longrightarrow> W x z"
    and "\<And>i x y. i < length ts \<Longrightarrow> G (a i) x y \<Longrightarrow> W x y"
  shows "W s t \<and> (\<forall>i<length us. meets (R (a i)) (G (a i)) (Q i) t (us ! i))"
  using assms(1)
proof (induction n "(t, us)" arbitrary: t us rule: mt_run.induct)
  case mt_none
  then show ?case using assms(2,4) by auto
next
  case (mt_next n d)
  obtain v vs where d: "d = (v, vs)" by (cases d)
  have len: "length vs = length ts" using mt_run_length [OF mt_next(1)] d by simp
  from mt_next(2) [OF d] have W: "W s v"
    and each: "\<And>i. i < length vs \<Longrightarrow> meets (R (a i)) (G (a i)) (Q i) v (vs ! i)" by auto
  have "mt_step (v, vs) (t, us)" using mt_next(3) d by simp
  from step_meets [OF this each] len assms(3)
  obtain j where "j < length ts" "G (a j) v t" "\<forall>i<length us. meets (R (a i)) (G (a i)) (Q i) t (us ! i)"
    by auto
  then show ?case using W assms(5,6) by blast
qed

end

end
