(* ===== verification/Aegis_Serial.thy ===== *)
theory Aegis_Serial
  imports Aegis_Rely
begin

text \<open>
  Concurrent updates of the policy lists under different keys. The additions drop their lock
  between check and commit, so updates of one key can race; this theory shows that nothing else
  can: calls that update pairwise different keys, with room on the lists, each end as if they had
  been alone, and leave the lists as one after another would have.

  The entries of the three lists are taken as one set, each entry under its key. A call is
  responsible for its key: it relies on the others leaving the entries under that key alone and
  guarantees to leave all other entries alone.
\<close>

section \<open>Entries and keys of all lists\<close>

datatype lkey = PK "string \<times> int" | FK string | SK int

datatype entry = EP aegis_protected_proc | EF aegis_protected_file | ES aegis_blocked_syscall

primrec entry_key :: "entry \<Rightarrow> lkey" where
  "entry_key (EP e) = PK (proc_key e)"
| "entry_key (EF e) = FK (file_key e)"
| "entry_key (ES e) = SK (bs_syscall_nr e)"

definition all_entries :: "aegis_state \<Rightarrow> entry set" where
  "all_entries s = EP ` set (protected_procs s) \<union> EF ` set (protected_files s) \<union>
     ES ` set (blocked_syscalls s)"

definition at_key :: "lkey \<Rightarrow> aegis_state \<Rightarrow> entry set" where
  "at_key l s = {x \<in> all_entries s. entry_key x = l}"

text \<open>Keys that leave room on every list, and a state whose keys are among them.\<close>

definition room :: "lkey set \<Rightarrow> bool" where
  "room U \<longleftrightarrow> finite U \<and> card (PK -` U) < AEGIS_MAX_PROTECTED_PROCS \<and>
     card (FK -` U) < AEGIS_MAX_PROTECTED_FILES \<and> card (SK -` U) < AEGIS_MAX_BLOCKED_SYSCALLS"

definition steady :: "lkey set \<Rightarrow> aegis_state \<Rightarrow> bool" where
  "steady U s \<longleftrightarrow> lists_wf s \<and> entry_key ` all_entries s \<subseteq> U"

lemma key_sets:
  "proc_keys s = PK -` (entry_key ` all_entries s)"
  "file_keys s = FK -` (entry_key ` all_entries s)"
  "blocked_set s = SK -` (entry_key ` all_entries s)"
  by (auto simp: proc_keys_def file_keys_def blocked_set_def all_entries_def image_Un image_image)

lemma at_key_empty:
  "at_key (PK k) s = {} \<longleftrightarrow> k \<notin> proc_keys s"
  "at_key (FK p) s = {} \<longleftrightarrow> p \<notin> file_keys s"
  "at_key (SK nr) s = {} \<longleftrightarrow> nr \<notin> blocked_set s"
  by (auto simp: at_key_def all_entries_def proc_keys_def file_keys_def blocked_set_def)

lemma by_lists:
  assumes "lists_of t = lists_of s"
  shows "all_entries t = all_entries s" "steady U t = steady U s" "at_key l t = at_key l s"
proof -
  show e: "all_entries t = all_entries s" using assms by (simp add: all_entries_def lists_of_def)
  show "steady U t = steady U s" "at_key l t = at_key l s"
    using same_lists(1) [OF assms] e by (simp_all add: steady_def at_key_def)
qed

lemma entries_log [simp]:
  "all_entries (AEGIS_INFO m s) = all_entries s" "steady U (AEGIS_INFO m s) = steady U s"
  "at_key l (AEGIS_INFO m s) = at_key l s"
  using by_lists [of "AEGIS_INFO m s" s] by simp_all


section \<open>What a call is responsible for\<close>

definition own :: "lkey set \<Rightarrow> lkey option \<Rightarrow> aegis_state \<Rightarrow> aegis_state \<Rightarrow> bool" where
  "own U a s t \<longleftrightarrow> (steady U s \<longrightarrow> steady U t \<and> (\<forall>l. a = Some l \<longrightarrow> at_key l t = at_key l s))"

definition touch :: "lkey set \<Rightarrow> lkey option \<Rightarrow> aegis_state \<Rightarrow> aegis_state \<Rightarrow> bool" where
  "touch U a s t \<longleftrightarrow> (steady U s \<longrightarrow> steady U t \<and> (\<forall>l. a \<noteq> Some l \<longrightarrow> at_key l t = at_key l s))"

interpretation rg: rely_guarantee "own U" "touch U" "\<lambda>a b. a = None \<or> a \<noteq> b" for U
  by unfold_locales (auto simp: own_def touch_def)

primrec call_key :: "('d, 'p) kcall \<Rightarrow> lkey option" where
  "call_key (C_proc_add km c p) = map_option (\<lambda>c. PK (cstr c, p)) c"
| "call_key (C_proc_del c p) = map_option (\<lambda>c. PK (cstr c, p)) c"
| "call_key (C_file_add fe f) = map_option (\<lambda>f. FK (cstr f)) f"
| "call_key (C_file_del f) = map_option (\<lambda>f. FK (cstr f)) f"
| "call_key (C_syscall_add km nr) = Some (SK nr)"
| "call_key (C_syscall_del nr) = Some (SK nr)"
| "call_key (C_knob k dv wr buf) = None"
| "call_key (C_ptrace env c m) = None"
| "call_key (C_traceme env p) = None"
| "call_key (C_file_permission env f m) = None"
| "call_key (C_file_open env f) = None"
| "call_key (C_read_file env f i c) = None"
| "call_key (C_load_data env i c) = None"
| "call_key (C_task_free t) = None"
| "call_key C_bprm = None"

text \<open>Names and paths short enough for their buffers, as the endpoints hand them on.\<close>

primrec call_fits :: "('d, 'p) kcall \<Rightarrow> bool" where
  "call_fits (C_proc_add km c p) \<longleftrightarrow> pred_option (\<lambda>c. proc_valid (c, p)) c"
| "call_fits (C_proc_del c p) \<longleftrightarrow> True"
| "call_fits (C_file_add fe f) \<longleftrightarrow> pred_option file_valid f"
| "call_fits (C_file_del f) \<longleftrightarrow> True"
| "call_fits (C_syscall_add km nr) \<longleftrightarrow> True"
| "call_fits (C_syscall_del nr) \<longleftrightarrow> True"
| "call_fits (C_knob k dv wr buf) \<longleftrightarrow> True"
| "call_fits (C_ptrace env c m) \<longleftrightarrow> True"
| "call_fits (C_traceme env p) \<longleftrightarrow> True"
| "call_fits (C_file_permission env f m) \<longleftrightarrow> True"
| "call_fits (C_file_open env f) \<longleftrightarrow> True"
| "call_fits (C_read_file env f i c) \<longleftrightarrow> True"
| "call_fits (C_load_data env i c) \<longleftrightarrow> True"
| "call_fits (C_task_free t) \<longleftrightarrow> True"
| "call_fits C_bprm \<longleftrightarrow> True"


section \<open>The sections of the list operations\<close>

context policy_list begin

lemma check_with_room:
  assumes "reg_wf cap wfe key (entries s) (count s)" "count s < int cap"
  shows "check k s = (if norm k \<in> key ` set (entries s) then Inl EEXIST else ret0)"
  using assms hit_iff_key [of "entries s" k] by (simp add: check_eq reg_wf_def)

lemma set_del:
  assumes "reg_wf cap wfe key (entries s) (count s)"
  shows "set (entries (snd (del k s))) = {e \<in> set (entries s). key e \<noteq> norm k}"
proof (cases k s rule: del_cases)
  case miss
  then show ?thesis
    using assms hit_iff_key [of "entries s" k] by (auto simp: reg_wf_def image_iff)
next
  case (found us x vs)
  then have "key x = norm k" using assms hit_key by (auto simp: reg_wf_def)
  moreover from assms found have "key x \<notin> key ` set us" "key x \<notin> key ` set vs"
    by (auto simp: reg_wf_def)
  ultimately show ?thesis using found by (auto simp: image_iff)
qed

end

lemma steady_counts:
  assumes "room U" "steady U s"
  shows "protected_proc_count s < int AEGIS_MAX_PROTECTED_PROCS"
    "protected_file_count s < int AEGIS_MAX_PROTECTED_FILES"
    "blocked_syscall_count s < int AEGIS_MAX_BLOCKED_SYSCALLS"
proof -
  have wf: "procs_wf s" "files_wf s" "syscalls_wf s" using assms(2) by (simp_all add: steady_def lists_wf_def)
  have sub: "proc_keys s \<subseteq> PK -` U" "file_keys s \<subseteq> FK -` U" "blocked_set s \<subseteq> SK -` U"
    using assms(2) unfolding key_sets by (auto simp: steady_def)
  have fin: "finite (PK -` U)" "finite (FK -` U)" "finite (SK -` U)"
    using assms(1) by (auto simp: room_def inj_def intro!: finite_vimageI)
  have "card (proc_keys s) \<le> card (PK -` U)" "card (file_keys s) \<le> card (FK -` U)"
    "card (blocked_set s) \<le> card (SK -` U)" using sub fin by (auto intro: card_mono)
  then show "protected_proc_count s < int AEGIS_MAX_PROTECTED_PROCS"
    "protected_file_count s < int AEGIS_MAX_PROTECTED_FILES"
    "blocked_syscall_count s < int AEGIS_MAX_BLOCKED_SYSCALLS"
    using assms(1) pl.count_card [of s] fl.count_card [of s] sl.count_card [of s] wf
    by (simp_all add: room_def procs_wf_def files_wf_def syscalls_wf_def proc_keys_def
        file_keys_def blocked_set_def)
qed

lemma steady_checks:
  assumes "room U" "steady U s"
  shows "proc_add_check (c, p) s = (if at_key (PK (cstr c, p)) s = {} then ret0 else Inl EEXIST)"
    "file_add_check f s = (if at_key (FK (cstr f)) s = {} then ret0 else Inl EEXIST)"
    "syscall_add_check nr s = (if at_key (SK nr) s = {} then ret0 else Inl EEXIST)"
proof -
  have wf: "procs_wf s" "files_wf s" "syscalls_wf s" using assms(2) by (simp_all add: steady_def lists_wf_def)
  show "proc_add_check (c, p) s = (if at_key (PK (cstr c, p)) s = {} then ret0 else Inl EEXIST)"
    using pl.check_with_room [of s "(c, p)"] wf(1) steady_counts(1) [OF assms]
    by (simp add: procs_wf_def at_key_empty proc_keys_def proc_norm_def)
  show "file_add_check f s = (if at_key (FK (cstr f)) s = {} then ret0 else Inl EEXIST)"
    using fl.check_with_room [of s f] wf(2) steady_counts(2) [OF assms]
    by (simp add: files_wf_def at_key_empty file_keys_def)
  show "syscall_add_check nr s = (if at_key (SK nr) s = {} then ret0 else Inl EEXIST)"
    using sl.check_with_room [of s nr] wf(3) steady_counts(3) [OF assms]
    by (simp add: syscalls_wf_def at_key_empty blocked_set_def)
qed

text \<open>A commit puts one entry under a key that had none; a removal empties its key.\<close>

lemma entries_commit:
  "all_entries (proc_add_commit e s) = insert (EP e) (all_entries s)"
  "all_entries (file_add_commit f s) = insert (EF f) (all_entries s)"
  "all_entries (syscall_add_commit g s) = insert (ES g) (all_entries s)"
  by (auto simp: all_entries_def proc_add_commit_def file_add_commit_def syscall_add_commit_def)

lemma wf_commit_frame:
  "files_wf (proc_add_commit e s) = files_wf s" "syscalls_wf (proc_add_commit e s) = syscalls_wf s"
  "procs_wf (file_add_commit f s) = procs_wf s" "syscalls_wf (file_add_commit f s) = syscalls_wf s"
  "procs_wf (syscall_add_commit g s) = procs_wf s" "files_wf (syscall_add_commit g s) = files_wf s"
  by (simp_all add: procs_wf_def files_wf_def syscalls_wf_def proc_add_commit_def
      file_add_commit_def syscall_add_commit_def)

lemma steady_commit:
  assumes "room U" "steady U s" "at_key l s = {}" "l \<in> U"
  shows "l = PK (cstr c, p) \<Longrightarrow> proc_valid (c, p) \<Longrightarrow>
      steady U (proc_add_commit (proc_new c p) s) \<and> entry_key (EP (proc_new c p)) = l"
    and "l = FK (cstr f) \<Longrightarrow> file_valid f \<Longrightarrow> file_built f e \<Longrightarrow>
      steady U (file_add_commit e s) \<and> entry_key (EF e) = l"
    and "l = SK nr \<Longrightarrow> 0 \<le> nr \<Longrightarrow>
      steady U (syscall_add_commit \<lparr>bs_syscall_nr = nr\<rparr> s) \<and> entry_key (ES \<lparr>bs_syscall_nr = nr\<rparr>) = l"
proof -
  have wf: "procs_wf s" "files_wf s" "syscalls_wf s" using assms(2) by (simp_all add: steady_def lists_wf_def)
  have keys: "entry_key ` all_entries s \<subseteq> U" using assms(2) by (simp add: steady_def)
  {
    assume l: "l = PK (cstr c, p)" and v: "proc_valid (c, p)"
    have ok: "proc_add_check (c, p) s = ret0" using steady_checks(1) [OF assms(1,2)] assms(3) l by simp
    have "procs_wf (proc_add_commit (proc_new c p) s)"
      using pl.commit_wf [OF _ ok, of "proc_new c p"] wf(1) v by (simp add: procs_wf_def proc_built_def)
    then show "steady U (proc_add_commit (proc_new c p) s) \<and> entry_key (EP (proc_new c p)) = l"
      using wf keys assms(4) v l
      by (simp add: steady_def lists_wf_def entries_commit proc_new_key proc_valid_def wf_commit_frame)
  next
    assume l: "l = FK (cstr f)" and v: "file_valid f" and b: "file_built f e"
    have ok: "file_add_check f s = ret0" using steady_checks(2) [OF assms(1,2)] assms(3) l by simp
    have "files_wf (file_add_commit e s)"
      using fl.commit_wf [OF _ ok b v] wf(2) by (simp add: files_wf_def)
    then show "steady U (file_add_commit e s) \<and> entry_key (EF e) = l"
      using wf keys assms(4) fl.built_key [OF b v] l
      by (simp add: steady_def lists_wf_def entries_commit wf_commit_frame)
  next
    assume l: "l = SK nr" and v: "0 \<le> nr"
    have ok: "syscall_add_check nr s = ret0" using steady_checks(3) [OF assms(1,2)] assms(3) l by simp
    have "syscalls_wf (syscall_add_commit \<lparr>bs_syscall_nr = nr\<rparr> s)"
      using sl.commit_wf [OF _ ok, of "\<lparr>bs_syscall_nr = nr\<rparr>"] wf(3) v
      by (simp add: syscalls_wf_def syscall_built_def)
    then show "steady U (syscall_add_commit \<lparr>bs_syscall_nr = nr\<rparr> s) \<and>
        entry_key (ES \<lparr>bs_syscall_nr = nr\<rparr>) = l"
      using wf keys assms(4) l
      by (simp add: steady_def lists_wf_def entries_commit wf_commit_frame)
  }
qed

lemma steady_del:
  assumes "steady U s"
  shows "steady U (snd (aegis_protect_process_del (Some c) p s)) \<and>
      all_entries (snd (aegis_protect_process_del (Some c) p s)) =
        {x \<in> all_entries s. entry_key x \<noteq> PK (cstr c, p)}" (is ?P)
    and "steady U (snd (aegis_protected_file_del (Some f) s)) \<and>
      all_entries (snd (aegis_protected_file_del (Some f) s)) =
        {x \<in> all_entries s. entry_key x \<noteq> FK (cstr f)}" (is ?F)
    and "steady U (snd (aegis_syscall_block_del nr s)) \<and>
      all_entries (snd (aegis_syscall_block_del nr s)) = {x \<in> all_entries s. entry_key x \<noteq> SK nr}" (is ?S)
proof -
  have wf: "procs_wf s" "files_wf s" "syscalls_wf s" using assms by (simp_all add: steady_def lists_wf_def)
  have steadyI: "steady U t \<and> all_entries t = {x \<in> all_entries s. entry_key x \<noteq> l}"
    if "lists_wf t" "all_entries t = {x \<in> all_entries s. entry_key x \<noteq> l}" for t l
    using that assms by (auto simp: steady_def)
  note wf_frames = procs_wf_def files_wf_def syscalls_wf_def
  show ?P
  proof (rule steadyI)
    show "lists_wf (snd (aegis_protect_process_del (Some c) p s))"
      using wf procs_wf_del [OF wf(1), of "Some c" p] by (simp add: lists_wf_def wf_frames)
    show "all_entries (snd (aegis_protect_process_del (Some c) p s)) =
        {x \<in> all_entries s. entry_key x \<noteq> PK (cstr c, p)}"
      using pl.set_del [of s "(c, p)"] wf(1) by (auto simp: all_entries_def procs_wf_def proc_norm_def)
  qed
  show ?F
  proof (rule steadyI)
    show "lists_wf (snd (aegis_protected_file_del (Some f) s))"
      using wf files_wf_del [OF wf(2), of "Some f"] by (simp add: lists_wf_def wf_frames)
    show "all_entries (snd (aegis_protected_file_del (Some f) s)) =
        {x \<in> all_entries s. entry_key x \<noteq> FK (cstr f)}"
      using fl.set_del [of s f] wf(2) by (auto simp: all_entries_def files_wf_def)
  qed
  show ?S
  proof (rule steadyI)
    show "lists_wf (snd (aegis_syscall_block_del nr s))"
      using wf syscalls_wf_del [OF wf(3), of nr] by (simp add: lists_wf_def wf_frames)
    show "all_entries (snd (aegis_syscall_block_del nr s)) = {x \<in> all_entries s. entry_key x \<noteq> SK nr}"
      using sl.set_del [of s nr] wf(3) by (auto simp: all_entries_def syscalls_wf_def)
  qed
qed


section \<open>Threads that look at one key only\<close>

text \<open>
  A thread whose steps, in steady states with entries \<open>A\<close> under its key, go on in one way only
  and touch nothing else.
\<close>

inductive keyed :: "lkey set \<Rightarrow> lkey \<Rightarrow> entry set \<Rightarrow> thread \<Rightarrow> bool" for U l where
  keyed_done [simp]: "keyed U l A (Done r)"
| keyed_fault [simp]: "keyed U l A Fault"
| keyed_hang [simp]: "keyed U l A Hang"
| keyed_step: "(\<And>s. steady U s \<Longrightarrow> at_key l s = A \<Longrightarrow>
       touch U (Some l) s (snd (f s)) \<and> fst (f s) = th \<and> at_key l (snd (f s)) = B) \<Longrightarrow>
     keyed U l B th \<Longrightarrow> keyed U l A (Step f)"

text \<open>How such a thread ends is determined by the entries under its key.\<close>

lemma keyed_alone:
  assumes "keyed U l A th" "steady U s" "at_key l s = A" "steady U t" "at_key l t = A"
  shows "fst (alone th s) = fst (alone th t) \<and> at_key l (snd (alone th s)) = at_key l (snd (alone th t))"
  using assms
proof (induction arbitrary: s t rule: keyed.induct)
  case (keyed_step A f th B)
  note fs = keyed_step.hyps(1) [OF keyed_step.prems(1,2)]
    and ft = keyed_step.hyps(1) [OF keyed_step.prems(3,4)]
  have "steady U (snd (f s))" "steady U (snd (f t))"
    using fs ft keyed_step.prems(1,3) by (auto simp: touch_def)
  from keyed_step.IH [OF this(1) _ this(2)] show ?case using fs ft by simp
qed simp_all

lemma keyed_meets:
  assumes "keyed U l A th" "steady U s" "at_key l s = A"
  shows "meets (own U (Some l)) (touch U (Some l))
    (\<lambda>t u. u = fst (alone th s) \<and> at_key l t = at_key l (snd (alone th s))) s th"
  using assms
proof (induction arbitrary: s rule: keyed.induct)
  case (keyed_step A f th B)
  show ?case
  proof (rule meets_step, intro conjI)
    fix t
    assume "own U (Some l) s t"
    with keyed_step.prems have t: "steady U t" "at_key l t = A" by (simp_all add: own_def)
    note ft = keyed_step.hyps(1) [OF t] and fs = keyed_step.hyps(1) [OF keyed_step.prems]
    show "touch U (Some l) t (snd (f t))" using ft by blast
    have st: "steady U (snd (f t))" "steady U (snd (f s))"
      using ft fs t keyed_step.prems by (auto simp: touch_def)
    have same: "fst (alone th (snd (f t))) = fst (alone (Step f) s) \<and>
        at_key l (snd (alone th (snd (f t)))) = at_key l (snd (alone (Step f) s))"
      using keyed_alone [OF keyed_step.hyps(2) st(1) _ st(2)] ft fs by simp
    from keyed_step.IH [OF st(1)] ft
    show "meets (own U (Some l)) (touch U (Some l))
        (\<lambda>x u. u = fst (alone (Step f) s) \<and> at_key l x = at_key l (snd (alone (Step f) s)))
        (snd (f t)) (fst (f t))"
      using same by simp
  qed
qed (auto intro!: meets.intros simp: own_def)

text \<open>The list operations are such threads.\<close>

lemma touch_log: "touch U a s (AEGIS_INFO m s)"
  by (simp add: touch_def)

lemma keyed_log: "keyed U l A (finish [AEGIS_INFO m] r)"
  unfolding finish.simps by (rule keyed_step [of _ _ _ _ "Done r" A]) (simp_all add: touch_log)

lemma keyed_check:
  assumes "\<And>s. steady U s \<Longrightarrow> chk s = (if at_key l s = {} then ret0 else Inl EEXIST)"
    and "A = {} \<Longrightarrow> keyed U l A go"
  shows "keyed U l A (Step (\<lambda>s. (case chk s of Inl e \<Rightarrow> Done (Inl e) | Inr _ \<Rightarrow> go, s)))"
  by (rule keyed_step [of _ _ _ _ "if A = {} then go else Done (Inl EEXIST)" A])
    (use assms in \<open>auto simp: touch_def\<close>)

lemma keyed_commit:
  assumes "\<And>s. steady U s \<Longrightarrow> at_key l s = {} \<Longrightarrow> steady U (com s) \<and> all_entries (com s) = insert x (all_entries s)"
    and "entry_key x = l" "keyed U l {x} rest"
  shows "keyed U l {} (Step (\<lambda>s. (rest, com s)))"
proof (rule keyed_step [of _ _ _ _ rest "{x}"])
  fix s
  assume s: "steady U s" "at_key l s = {}"
  have "at_key l' (com s) = (if l' = l then {x} else at_key l' s)" for l'
    using assms(1) [OF s] assms(2) s(2) by (auto simp: at_key_def)
  then show "touch U (Some l) s (snd (rest, com s)) \<and> fst (rest, com s) = rest \<and>
      at_key l (snd (rest, com s)) = {x}"
    using assms(1) [OF s] by (simp add: touch_def)
qed (rule assms(3))

lemma keyed_del:
  assumes "\<And>s. steady U s \<Longrightarrow> steady U (snd (D s)) \<and> all_entries (snd (D s)) = {x \<in> all_entries s. entry_key x \<noteq> l}"
    and "\<And>s. steady U s \<Longrightarrow> fst (D s) = (if at_key l s = {} then Inl ENOENT else ret0)"
    and "\<And>s. steady U (snd (f s)) = steady U (snd (D s)) \<and> all_entries (snd (f s)) = all_entries (snd (D s)) \<and>
      fst (f s) = (if fst (D s) = ret0 then finish [AEGIS_INFO m] ret0 else Done (fst (D s)))"
  shows "keyed U l A (Step f)"
proof (rule keyed_step [of _ _ _ _ "if A = {} then Done (Inl ENOENT) else finish [AEGIS_INFO m] ret0" "{}"])
  fix s
  assume s: "steady U s" "at_key l s = A"
  have "at_key l' (snd (f s)) = (if l' = l then {} else at_key l' s)" for l'
    using assms(1) [OF s(1)] assms(3) [of s] by (auto simp: at_key_def)
  then show "touch U (Some l) s (snd (f s)) \<and>
      fst (f s) = (if A = {} then Done (Inl ENOENT) else finish [AEGIS_INFO m] ret0) \<and>
      at_key l (snd (f s)) = {}"
    using assms(1,2) [OF s(1)] assms(3) [of s] s(2) by (simp add: touch_def)
qed (simp add: keyed_log)

lemma steady_found:
  assumes "steady U s"
  shows "fst (aegis_protect_process_del (Some c) p s) = (if at_key (PK (cstr c, p)) s = {} then Inl ENOENT else ret0)"
    "fst (aegis_protected_file_del (Some f) s) = (if at_key (FK (cstr f)) s = {} then Inl ENOENT else ret0)"
    "fst (aegis_syscall_block_del nr s) = (if at_key (SK nr) s = {} then Inl ENOENT else ret0)"
  using assms pl.del_found_iff [of s "(c, p)"] fl.del_found_iff [of s f] sl.del_found_iff [of s nr]
  by (simp_all add: steady_def lists_wf_def procs_wf_def files_wf_def syscalls_wf_def at_key_empty
      proc_keys_def file_keys_def blocked_set_def proc_norm_def)

lemma keyed_dels:
  "keyed U (PK (cstr c, p)) A (aegis_protect_process_del_t (Some c) p)"
  "keyed U (FK (cstr f)) A (aegis_protected_file_del_t (Some f))"
  "keyed U (SK nr) A (aegis_syscall_block_del_t nr)"
proof -
  show "keyed U (PK (cstr c, p)) A (aegis_protect_process_del_t (Some c) p)"
    unfolding aegis_protect_process_del_t_def option.case
    by (rule keyed_del [OF steady_del(1) steady_found(1)])
      (auto simp: aegis_protect_process_del_def split: option.split)
  show "keyed U (FK (cstr f)) A (aegis_protected_file_del_t (Some f))"
    unfolding aegis_protected_file_del_t_def option.case
    by (rule keyed_del [OF steady_del(2) steady_found(2)])
      (auto simp: aegis_protected_file_del_def split: option.split)
  show "keyed U (SK nr) A (aegis_syscall_block_del_t nr)"
    unfolding aegis_syscall_block_del_t_def
    by (rule keyed_del [OF steady_del(3) steady_found(3)])
      (auto simp: aegis_syscall_block_del_def split: option.split)
qed

lemma keyed_file_log: "keyed U l {EF e} (file_added_log f e)"
proof -
  have "e \<in> set (protected_files s)" if "at_key l s = {EF e}" for s
    using that by (auto simp: at_key_def all_entries_def)
  then show ?thesis
    unfolding file_added_log_def by (intro keyed_step [OF _ keyed_log]) (simp add: touch_def)
qed

lemma keyed_adds:
  assumes "room U"
  shows "PK (cstr c, p) \<in> U \<Longrightarrow> proc_valid (c, p) \<Longrightarrow>
      keyed U (PK (cstr c, p)) A (aegis_protect_process_add_t km (Some c) p)"
    and "FK (cstr f) \<in> U \<Longrightarrow> file_valid f \<Longrightarrow>
      keyed U (FK (cstr f)) A (aegis_protected_file_add_t fe (Some f))"
    and "SK nr \<in> U \<Longrightarrow> keyed U (SK nr) A (aegis_syscall_block_add_t km nr)"
proof -
  assume u: "PK (cstr c, p) \<in> U" "proc_valid (c, p)"
  have "keyed U (PK (cstr c, p)) {} (Step (\<lambda>s. (finish [AEGIS_INFO m] ret0, proc_add_commit (proc_new c p) s)))" for m
    by (rule keyed_commit [of _ _ _ "EP (proc_new c p)"])
      (use u assms in \<open>simp_all add: steady_commit(1) entries_commit keyed_log proc_new_key proc_valid_def\<close>)
  then show "keyed U (PK (cstr c, p)) A (aegis_protect_process_add_t km (Some c) p)"
    unfolding aegis_protect_process_add_t_def option.case
    by (intro keyed_check steady_checks [OF assms]) (simp_all add: finish.simps)
next
  assume u: "FK (cstr f) \<in> U" "file_valid f"
  have commit: "keyed U (FK (cstr f)) {} (Step (\<lambda>s. (file_added_log f e, file_add_commit e s)))"
    if "file_new fe f = Some e" for e
    by (rule keyed_commit [of _ _ _ "EF e"])
      (use u assms steady_commit(2) [OF assms, of _ "FK (cstr f)" f e] file_new_built [OF that]
        fl.built_key [OF file_new_built [OF that] u(2)]
        in \<open>simp_all add: entries_commit keyed_file_log\<close>)
  have "keyed U (FK (cstr f)) {} (case file_new fe f of None \<Rightarrow> Hang
      | Some e \<Rightarrow> Step (\<lambda>s. (file_added_log f e, file_add_commit e s)))"
    by (simp add: commit split: option.split)
  then have "keyed U (FK (cstr f)) {} (file_digest_t fe f)"
    unfolding file_digest_t_def by (rule keyed_step [rotated]) (simp add: touch_def)
  then show "keyed U (FK (cstr f)) A (aegis_protected_file_add_t fe (Some f))"
    unfolding aegis_protected_file_add_t_def option.case
    by (intro keyed_check steady_checks [OF assms]) (simp_all split: option.split)
next
  assume u: "SK nr \<in> U"
  have "keyed U (SK nr) {} (Step (\<lambda>s. (finish [AEGIS_INFO m] ret0, syscall_add_commit \<lparr>bs_syscall_nr = nr\<rparr> s)))"
    if "0 \<le> nr" for m
    by (rule keyed_commit [of _ _ _ "ES \<lparr>bs_syscall_nr = nr\<rparr>"])
      (use u assms that in \<open>simp_all add: steady_commit(3) entries_commit keyed_log\<close>)
  moreover have "keyed U (SK nr) A (Step (\<lambda>s. (case syscall_add_check nr s of Inl e \<Rightarrow> Done (Inl e) | Inr _ \<Rightarrow> go, s)))"
    if "A = {} \<Longrightarrow> keyed U (SK nr) A go" for go
    by (intro keyed_check steady_checks [OF assms] that)
  ultimately show "keyed U (SK nr) A (aegis_syscall_block_add_t km nr)"
    unfolding aegis_syscall_block_add_t_def by (simp add: finish.simps)
qed

lemma call_keyed:
  assumes "room U" "call_key c = Some l" "l \<in> U" "call_fits c"
  shows "keyed U l A (thread_of c)"
  using assms by (cases c) (auto intro: keyed_dels keyed_adds)

text \<open>The other calls leave the lists alone.\<close>

lemma lists_by_policy: "by_policy (\<lambda>s. lists_of s = L)"
  unfolding by_policy_def using policy_parts(1) by metis

lemma call_keeps_lists:
  assumes "call_key c = None"
  shows "keeps (\<lambda>s. lists_of s = L) (thread_of c)"
proof (cases c)
  case (C_knob k dv wr buf)
  have "keeps (\<lambda>s. lists_of s = L) (knob_commit k)"
    by (rule keeps_knob_commit [OF lists_by_policy]) (simp add: lists_of_def)
  with C_knob show ?thesis
    by (auto simp: knob_handler_t_def Let_def case_prod_beta intro!: keeps_step)
qed (use assms in \<open>auto intro!: keeps_hooks lists_by_policy
    simp: aegis_protect_process_add_t_def aegis_protect_process_del_t_def
      aegis_protected_file_add_t_def aegis_protected_file_del_t_def\<close>)

lemma keeps_lists_meets:
  assumes "\<And>L. keeps (\<lambda>s. lists_of s = L) th"
  shows "meets (own U None) (touch U None) (\<lambda>_ _. True) s th"
proof (rule keeps_meets [OF assms])
  fix s t :: aegis_state
  assume "lists_of t = lists_of s"
  from by_lists [OF this] show "touch U None s t" by (simp add: touch_def)
qed


section \<open>Any schedule is one after another\<close>

text \<open>Calls under pairwise different keys.\<close>

definition apart :: "('d, 'p) kcall list \<Rightarrow> bool" where
  "apart cs \<longleftrightarrow> distinct (List.map_filter call_key cs)"

definition keys_touched :: "('d, 'p) kcall list \<Rightarrow> lkey set" where
  "keys_touched cs = set (List.map_filter call_key cs)"

lemma distinct_map_filter_nth:
  "distinct (List.map_filter f cs) \<Longrightarrow> i < length cs \<Longrightarrow> j < length cs \<Longrightarrow> i \<noteq> j \<Longrightarrow>
   f (cs ! i) = None \<or> f (cs ! i) \<noteq> f (cs ! j)"
proof (induction cs arbitrary: i j)
  case (Cons c cs)
  have in_keys: "f (cs ! k) = Some l \<Longrightarrow> k < length cs \<Longrightarrow> l \<in> set (List.map_filter f cs)" for k l
    by (force simp: List.map_filter_def)
  have tl: "distinct (List.map_filter f cs)"
    using Cons.prems(1) by (auto simp: map_filter_simps split: option.splits)
  show ?case
  proof (cases i; cases j)
    fix i' j'
    assume "i = Suc i'" "j = Suc j'"
    then show ?thesis using Cons.IH [OF tl] Cons.prems by simp
  qed (use Cons.prems in_keys in \<open>auto simp: map_filter_simps split: option.splits\<close>)
qed simp

lemmas apart_indep = distinct_map_filter_nth [of call_key, folded apart_def]

lemma run_by_keys:
  fixes cs :: "('d, 'p) kcall list"
  assumes "mt_run P (s, map thread_of cs) n (t, us)"
    and "room U" "steady U s" "apart cs" "list_all call_fits cs" "keys_touched cs \<subseteq> U"
  shows "steady U t" and "l \<notin> keys_touched cs \<Longrightarrow> at_key l t = at_key l s"
    and "i < length cs \<Longrightarrow> call_key (cs ! i) = Some l \<Longrightarrow> (\<And>f. us ! i \<noteq> Step f) \<Longrightarrow>
      us ! i = fst (alone (thread_of (cs ! i)) s) \<and>
      at_key l t = at_key l (snd (alone (thread_of (cs ! i)) s))"
proof -
  let ?key = "\<lambda>i. call_key (cs ! i)"
  let ?Q = "\<lambda>i t u. \<forall>l. ?key i = Some l \<longrightarrow> u = fst (alone (thread_of (cs ! i)) s) \<and>
    at_key l t = at_key l (snd (alone (thread_of (cs ! i)) s))"
  have touched: "?key i = Some l \<Longrightarrow> i < length cs \<Longrightarrow> l \<in> keys_touched cs" for i l
    by (force simp: keys_touched_def List.map_filter_def)
  have contract: "meets (own U (?key i)) (touch U (?key i)) (?Q i) s (map thread_of cs ! i)"
    if "i < length (map thread_of cs)" for i
  proof (cases "?key i")
    case None
    have "meets (own U None) (touch U None) (\<lambda>_ _. True) s (thread_of (cs ! i))"
      by (rule keeps_lists_meets) (rule call_keeps_lists [OF None])
    then show ?thesis using that None by (simp add: meets_weaken)
  next
    case (Some l)
    have "call_fits (cs ! i)" using assms(5) that by (simp add: list_all_length)
    then have "keyed U l (at_key l s) (thread_of (cs ! i))"
      using call_keyed [OF assms(2) Some] touched [OF Some] assms(6) that by auto
    from keyed_meets [OF this assms(3) refl] show ?thesis using that Some by simp
  qed
  let ?W = "\<lambda>x y. steady U x \<longrightarrow> steady U y \<and> (\<forall>l. l \<notin> keys_touched cs \<longrightarrow> at_key l y = at_key l x)"
  have within: "?W x y" if "i < length (map thread_of cs)" "touch U (?key i) x y" for i x y
  proof -
    have "?key i \<noteq> Some l" if "l \<notin> keys_touched cs" for l
      using touched [of i l] that \<open>i < length (map thread_of cs)\<close> by auto
    with that(2) show ?thesis by (simp add: touch_def)
  qed
  have "?W s t \<and> (\<forall>i<length us. meets (own U (?key i)) (touch U (?key i)) (?Q i) t (us ! i))"
    by (rule rg.run_meets [OF assms(1) contract]) (use apart_indep [OF assms(4)] within in auto)
  then have run: "?W s t" "\<And>i. i < length us \<Longrightarrow> meets (own U (?key i)) (touch U (?key i)) (?Q i) t (us ! i)"
    by blast+
  show "steady U t" "l \<notin> keys_touched cs \<Longrightarrow> at_key l t = at_key l s" using run(1) assms(3) by auto
  assume i: "i < length cs" "?key i = Some l" "\<And>f. us ! i \<noteq> Step f"
  have "length us = length cs" using mt_run_length [OF assms(1)] by simp
  with i meets_ended [OF run(2) _ i(3)] rg.rely_refl
  show "us ! i = fst (alone (thread_of (cs ! i)) s) \<and>
      at_key l t = at_key l (snd (alone (thread_of (cs ! i)) s))" by auto
qed

text \<open>The calls one after another, and the schedule that runs them so.\<close>

definition after_call :: "('d, 'p) kcall \<Rightarrow> aegis_state \<Rightarrow> aegis_state" where
  "after_call c s = (case call_atomically c s of None \<Rightarrow> s | Some (r, t) \<Rightarrow> t)"

definition in_turn :: "('d, 'p) kcall list \<Rightarrow> aegis_state \<Rightarrow> aegis_state" where
  "in_turn cs s = fold after_call cs s"

lemma after_call_alone: "after_call c s = snd (alone (thread_of c) s)"
proof (cases "call_atomically c s")
  case (Some x)
  then show ?thesis
    using alone_call [of c s] by (auto simp: after_call_def returned_def split: thread.splits)
next
  case None
  then obtain fe f where c: "c = C_file_add fe (Some f)" "file_add_check f s = ret0" "fe_kmalloc fe"
    "file_new fe f = None"
    by (cases c) (auto simp: aegis_protected_file_add_def file_add_check_def
        split: option.splits sum.splits if_splits)
  then show ?thesis using None by (simp add: after_call_def aegis_protected_file_add_t_def file_digest_t_def)
qed

lemma alone_ended: "fst (alone th s) \<noteq> Step f"
  by (induction th arbitrary: s rule: thread_steps_induct) auto

lemma in_turn_run:
  "\<exists>n us. mt_runs (s, map thread_of cs) n (in_turn cs s, us) \<and>
     length us = length cs \<and> (\<forall>i<length cs. \<forall>f. us ! i \<noteq> Step f)"
proof -
  have "\<exists>n us. mt_runs (s, map thread_of cs) n (in_turn (take k cs) s, us) \<and> length us = length cs \<and>
      (\<forall>i<k. \<forall>f. us ! i \<noteq> Step f) \<and> (\<forall>i. k \<le> i \<longrightarrow> i < length cs \<longrightarrow> us ! i = thread_of (cs ! i))"
    if "k \<le> length cs" for k
    using that
  proof (induction k)
    case 0
    then show ?case
      by (intro exI [of _ 0] exI [of _ "map thread_of cs"]) (auto simp: in_turn_def intro: mt_none)
  next
    case (Suc k)
    then obtain n us where us: "mt_runs (s, map thread_of cs) n (in_turn (take k cs) s, us)"
      "length us = length cs" "\<forall>i<k. \<forall>f. us ! i \<noteq> Step f"
      "\<forall>i. k \<le> i \<longrightarrow> i < length cs \<longrightarrow> us ! i = thread_of (cs ! i)" by auto
    let ?s = "in_turn (take k cs) s"
    have k: "k < length us" "us ! k = thread_of (cs ! k)" using us(2,4) Suc.prems by simp_all
    have "keeps (\<lambda>_. True) th" for th by (induction th rule: thread_steps_induct) auto
    from mt_run_alone [OF k(1) this, of ?s] obtain m
      where "mt_runs (?s, us) m (snd (alone (us ! k) ?s), us[k := fst (alone (us ! k) ?s)])" by auto
    from mt_run_trans [OF this us(1)]
    have "mt_runs (s, map thread_of cs) (n + m)
        (in_turn (take (Suc k) cs) s, us[k := fst (alone (us ! k) ?s)])"
      using k Suc.prems by (simp add: in_turn_def take_Suc_conv_app_nth after_call_alone)
    then show ?case
      using us(2-4) k alone_ended
      by (intro exI [of _ "n + m"] exI [of _ "us[k := fst (alone (us ! k) ?s)]"])
        (auto simp: nth_list_update less_Suc_eq)
  qed
  from this [of "length cs"] show ?thesis by auto
qed

text \<open>Room for all calls at once is room for their keys.\<close>

lemma room_for_calls:
  fixes cs :: "('d, 'p) kcall list"
  defines "n \<equiv> length (List.map_filter call_key cs)"
  assumes "lists_wf s" "protected_proc_count s + int n < int AEGIS_MAX_PROTECTED_PROCS"
    "protected_file_count s + int n < int AEGIS_MAX_PROTECTED_FILES"
    "blocked_syscall_count s + int n < int AEGIS_MAX_BLOCKED_SYSCALLS"
  shows "room (entry_key ` all_entries s \<union> keys_touched cs)"
proof -
  let ?K = "keys_touched cs"
  have few: "card (f -` ?K) \<le> n" if "inj f" for f :: "'b \<Rightarrow> lkey"
  proof -
    have "card ?K \<le> n"
      using card_length [of "List.map_filter call_key cs"] unfolding keys_touched_def n_def by simp
    moreover have "card (f -` ?K) \<le> card ?K"
    proof (rule card_inj_on_le)
      show "inj_on f (f -` ?K)" using that by (rule inj_on_subset) simp
      show "f ` (f -` ?K) \<subseteq> ?K" by auto
      show "finite ?K" by (simp add: keys_touched_def)
    qed
    ultimately show ?thesis by simp
  qed
  have keys: "protected_proc_count s = int (card (proc_keys s))"
    "protected_file_count s = int (card (file_keys s))" "blocked_syscall_count s = int (card (blocked_set s))"
    using assms(2) pl.count_card [of s] fl.count_card [of s] sl.count_card [of s]
    by (simp_all add: lists_wf_def procs_wf_def files_wf_def syscalls_wf_def proc_keys_def
        file_keys_def blocked_set_def)
  have split: "card (f -` (A \<union> ?K)) \<le> card (f -` A) + n" if "inj f" for f :: "'b \<Rightarrow> lkey" and A
    using card_Un_le [of "f -` A" "f -` ?K"] few [OF that] by (simp add: vimage_Un)
  have "finite (entry_key ` all_entries s \<union> ?K)" by (simp add: all_entries_def keys_touched_def)
  then show ?thesis
    using assms(3-5) split [of PK "entry_key ` all_entries s"] split [of FK "entry_key ` all_entries s"]
      split [of SK "entry_key ` all_entries s"]
    unfolding room_def keys key_sets [symmetric] by (simp add: inj_def)
qed

text \<open>What a finished thread has returned.\<close>

definition result_of :: "thread \<Rightarrow> cret option" where
  "result_of th = (case th of Done r \<Rightarrow> Some r | _ \<Rightarrow> None)"

lemma result_alone: "result_of (fst (alone (thread_of c) s)) = map_option fst (call_atomically c s)"
  by (simp add: result_of_def returned_def flip: alone_call split: thread.split)

text \<open>Two updates for evaluation.\<close>

definition demo_updates :: "(8 word list, string) kcall list" where
  "demo_updates = [C_proc_add True (Some ''nginx'') 0, C_syscall_del 5]"

lemma updates_few: "length (List.map_filter call_key cs) \<le> length cs"
  by (simp add: List.map_filter_def)


section \<open>Properties\<close>

text \<open>
  C9: Concurrent updates of different keys are serial. When calls that update pairwise different
  keys, with room on the lists for all of them, run concurrently with each other and with hooks
  and knob accesses, then under every schedule each update returns what it would have returned
  alone, does not return only where alone it would not, and when all have ended the lists are
  well formed and hold what they hold after the calls one after another.
\<close>

theorem updates_apart_serialize:
  fixes cs :: "('d, 'p) kcall list"
  assumes "lists_wf s" and "apart cs" and "list_all call_fits cs"
    and "protected_proc_count s + int (length cs) < int AEGIS_MAX_PROTECTED_PROCS"
    and "protected_file_count s + int (length cs) < int AEGIS_MAX_PROTECTED_FILES"
    and "blocked_syscall_count s + int (length cs) < int AEGIS_MAX_BLOCKED_SYSCALLS"
    and "mt_runs (s, map thread_of cs) n (t, us)" and "\<forall>d. \<not> mt_step (t, us) d"
  shows "(\<forall>i<length cs. call_key (cs ! i) \<noteq> None \<longrightarrow>
       result_of (us ! i) = map_option fst (call_atomically (cs ! i) s)) \<and>
    lists_wf t \<and> proc_keys t = proc_keys (in_turn cs s) \<and>
    file_keys t = file_keys (in_turn cs s) \<and> blocked_set t = blocked_set (in_turn cs s)"
proof -
  let ?U = "entry_key ` all_entries s \<union> keys_touched cs"
  have U: "room ?U" "steady ?U s" "keys_touched cs \<subseteq> ?U"
    using room_for_calls [OF assms(1), of cs] updates_few [of cs] assms(1,4-6)
    by (auto simp: steady_def)
  note by_keys = run_by_keys [OF _ U(1,2) assms(2,3) U(3)]
  have len: "length us = length cs" using mt_run_length [OF assms(7)] by simp
  have ended: "us ! i \<noteq> Step f" if "i < length cs" for i f using stuck_ended [OF assms(8)] that len by simp
  obtain m vs where turn: "mt_runs (s, map thread_of cs) m (in_turn cs s, vs)"
    and turn_ended: "\<And>i f. i < length cs \<Longrightarrow> vs ! i \<noteq> Step f"
    using in_turn_run [of s cs] by blast
  have "at_key l t = at_key l (in_turn cs s)" for l
  proof (cases "l \<in> keys_touched cs")
    case True
    then obtain i where "i < length cs" "call_key (cs ! i) = Some l"
      by (auto simp: keys_touched_def List.map_filter_def in_set_conv_nth)
    then show ?thesis using by_keys(3) [OF assms(7)] by_keys(3) [OF turn] ended turn_ended by simp
  next
    case False
    then show ?thesis using by_keys(2) [OF assms(7)] by_keys(2) [OF turn] by simp
  qed
  then have "\<And>l. l \<in> entry_key ` all_entries t \<longleftrightarrow> l \<in> entry_key ` all_entries (in_turn cs s)"
    by (auto simp: at_key_def image_iff set_eq_iff)
  then have "entry_key ` all_entries t = entry_key ` all_entries (in_turn cs s)" by blast
  then have keys: "proc_keys t = proc_keys (in_turn cs s)" "file_keys t = file_keys (in_turn cs s)"
    "blocked_set t = blocked_set (in_turn cs s)" by (simp_all add: key_sets)
  have "result_of (us ! i) = map_option fst (call_atomically (cs ! i) s)"
    if "i < length cs" "call_key (cs ! i) \<noteq> None" for i
    using that by_keys(3) [OF assms(7)] ended result_alone [of "cs ! i" s] by force
  moreover have "lists_wf t" using by_keys(1) [OF assms(7)] by (simp add: steady_def)
  ultimately show ?thesis using keys by simp
qed

theorem updates_apart_serialize_witness:
  "\<exists>n t us. mt_runs (aegis_statics, map thread_of demo_updates) n (t, us) \<and>
     (\<forall>d. \<not> mt_step (t, us) d) \<and> apart demo_updates \<and> list_all call_fits demo_updates \<and>
     result_of (us ! 0) = Some ret0 \<and> result_of (us ! 1) = Some (Inl ENOENT) \<and>
     lists_wf t \<and> proc_keys t = {(''nginx'', 0)} \<and> blocked_set t = {}"
proof -
  let ?last = "fold sched [0, 1, 0, 0] (aegis_statics, map thread_of demo_updates)"
  have run: "\<exists>n. mt_runs (aegis_statics, map thread_of demo_updates) n ?last"
    by (rule sched_run) (simp add: demo_updates_def)
  have fits: "list_all call_fits demo_updates" "apart demo_updates" "length demo_updates = 2"
    by (simp_all add: demo_updates_def apart_def map_filter_simps cstr_Cons proc_valid_def AEGIS_COMM_LEN_def)
  have last: "snd ?last = [Done ret0, Done (Inl ENOENT)]"
    by (simp add: demo_updates_def aegis_protect_process_add_t_def aegis_syscall_block_del_t_def
        proc_add_check_def proc_add_commit_def AEGIS_MAX_PROTECTED_PROCS_def finish.simps)
  then obtain n t us where r: "mt_runs (aegis_statics, map thread_of demo_updates) n (t, us)"
    and us: "us = [Done ret0, Done (Inl ENOENT)]" using run by (metis prod.collapse)
  have stuck: "\<forall>d. \<not> mt_step (t, us) d" by (auto simp: us less_Suc_eq elim!: mt_step.cases)
  have turn: "proc_keys (in_turn demo_updates aegis_statics) = {(''nginx'', 0)}"
    "blocked_set (in_turn demo_updates aegis_statics) = {}"
    by (simp_all add: in_turn_def after_call_def demo_updates_def aegis_protect_process_add_def
        proc_add_check_def proc_add_commit_def AEGIS_MAX_PROTECTED_PROCS_def aegis_syscall_block_del_def
        proc_keys_def blocked_set_def proc_new_key cstr_Cons AEGIS_COMM_LEN_def)
  have "lists_wf t \<and> proc_keys t = {(''nginx'', 0)} \<and> blocked_set t = {}"
    using updates_apart_serialize [OF lists_wf_statics fits(2,1) _ _ _ r stuck] fits(3) turn
    by (simp add: aegis_consts)
  with r stuck fits(1,2) show ?thesis by (intro exI conjI) (auto simp: result_of_def us)
qed

end
