(* ===== verification/Aegis_Knobs.thy ===== *)
theory Aegis_Knobs
  imports Aegis_Rely
begin

unbundle bit_operations_syntax

text \<open>
  Concurrent accesses to the sysctl knobs. A handler lets \<open>proc_dointvec\<close> store into the
  mirror, reads the mirror again and stores what it read into the configuration field the hooks
  consult; no lock covers these accesses. A writer is responsible for its knob: when no two
  calls write the same knob, each knob agrees with its field once its writer is through; two
  writers of one knob can leave the two apart for good.
\<close>

section \<open>Knobs and their mirrors\<close>

text \<open>The configuration field behind a knob and what a value of the mirror means for it, as integers.\<close>

fun knob_field :: "knob \<Rightarrow> aegis_config \<Rightarrow> int" where
  "knob_field K_enabled c = of_bool (enabled c)"
| "knob_field K_features c = uint (features c)"
| "knob_field K_ptrace_restrict_all c = of_bool (ptrace_restrict_all c)"
| "knob_field K_file_integrity_enforce c = of_bool (file_integrity_enforce c)"
| "knob_field K_file_integrity_log c = of_bool (file_integrity_log c)"
| "knob_field K_module_loading_denied c = of_bool (module_loading_denied c)"
| "knob_field K_syscall_audit_enable c = of_bool (syscall_audit_enable c)"

definition knob_conv :: "knob \<Rightarrow> int \<Rightarrow> int" where
  "knob_conv k v = (if k = K_features then uint (word_of_int v :: 32 word) else of_bool (v \<noteq> 0))"

definition knob_synced :: "knob \<Rightarrow> aegis_state \<Rightarrow> bool" where
  "knob_synced k s \<longleftrightarrow> knob_field k (aegis_cfg s) = knob_conv k (knob_mirror k s)"

definition knob_view :: "aegis_state \<Rightarrow> knob \<Rightarrow> int \<times> int" where
  "knob_view s k = (knob_mirror k s, knob_field k (aegis_cfg s))"

lemma knob_synced_iff:
  "knob_synced K_enabled s \<longleftrightarrow> enabled (aegis_cfg s) = (aegis_enabled s \<noteq> 0)"
  "knob_synced K_features s \<longleftrightarrow> features (aegis_cfg s) = word_of_int (aegis_features_val s)"
  "knob_synced K_ptrace_restrict_all s \<longleftrightarrow>
     ptrace_restrict_all (aegis_cfg s) = (aegis_ptrace_restrict_all s \<noteq> 0)"
  "knob_synced K_file_integrity_enforce s \<longleftrightarrow>
     file_integrity_enforce (aegis_cfg s) = (aegis_file_integrity_enforce s \<noteq> 0)"
  "knob_synced K_file_integrity_log s \<longleftrightarrow>
     file_integrity_log (aegis_cfg s) = (aegis_file_integrity_log s \<noteq> 0)"
  "knob_synced K_module_loading_denied s \<longleftrightarrow>
     module_loading_denied (aegis_cfg s) = (aegis_module_loading_denied s \<noteq> 0)"
  "knob_synced K_syscall_audit_enable s \<longleftrightarrow>
     syscall_audit_enable (aegis_cfg s) = (aegis_syscall_audit_enable s \<noteq> 0)"
  by (auto simp: knob_synced_def knob_conv_def intro: unsigned_word_eqI)

lemma sync_all_knobs: "sysctl_sync s \<longleftrightarrow> (\<forall>k. knob_synced k s)"
proof -
  have "(\<forall>k. P k) \<longleftrightarrow> P K_enabled \<and> P K_features \<and> P K_ptrace_restrict_all \<and>
      P K_file_integrity_enforce \<and> P K_file_integrity_log \<and> P K_module_loading_denied \<and>
      P K_syscall_audit_enable" for P
    by (metis knob.exhaust)
  then show ?thesis unfolding sysctl_sync_def knob_synced_iff [symmetric] by (simp only:)
qed

lemma knob_field_set:
  "knob_field k' (knob_set k v c) = (if k' = k then knob_conv k v else knob_field k' c)"
  by (cases k; cases k') (simp_all add: knob_conv_def)

lemma knob_field_policy:
  assumes "policy_of s = policy_of t"
  shows "knob_field k (aegis_cfg s) = knob_field k (aegis_cfg t)"
proof -
  have "knob_field k (cfg_policy c) = knob_field k c" for c
    by (cases k) (simp_all add: cfg_policy_def)
  then show ?thesis using policy_parts(3) [OF assms] by metis
qed

lemma knob_view_policy: "by_policy (\<lambda>s. knob_view s = V)"
proof -
  have "knob_view t = knob_view s" if "policy_of s = policy_of t" for s t
    using knob_field_policy [OF that] knob_mirror_by [OF policy_parts(2) [OF that]]
    by (simp add: fun_eq_iff knob_view_def)
  then show ?thesis unfolding by_policy_def by blast
qed

lemma knob_view_steps:
  "knob_view (knob_store k v s) = (knob_view s)(k := (v, snd (knob_view s k)))"
  "knob_view (s\<lparr>aegis_cfg := knob_set k v (aegis_cfg s)\<rparr>) = (knob_view s)(k := (fst (knob_view s k), knob_conv k v))"
  "knob_view (AEGIS_INFO m s) = knob_view s"
  by (auto simp: fun_eq_iff knob_view_def knob_store_mirror knob_field_set)

lemma knob_view_lists:
  "knob_view (proc_add_commit e s) = knob_view s" "knob_view (file_add_commit g s) = knob_view s"
  "knob_view (syscall_add_commit h s) = knob_view s"
  "knob_view (snd (aegis_protect_process_del comm p s)) = knob_view s"
  "knob_view (snd (aegis_protected_file_del path s)) = knob_view s"
  "knob_view (snd (aegis_syscall_block_del nr s)) = knob_view s"
  by (auto simp: fun_eq_iff knob_view_def aegis_defs split: option.split)


section \<open>A writer is responsible for its knob\<close>

definition own_knob :: "knob option \<Rightarrow> aegis_state \<Rightarrow> aegis_state \<Rightarrow> bool" where
  "own_knob a s t \<longleftrightarrow> (\<forall>k. a = Some k \<longrightarrow> knob_view t k = knob_view s k)"

definition turn_knob :: "knob option \<Rightarrow> aegis_state \<Rightarrow> aegis_state \<Rightarrow> bool" where
  "turn_knob a s t \<longleftrightarrow> (\<forall>k. a \<noteq> Some k \<longrightarrow> knob_view t k = knob_view s k)"

interpretation kn: rely_guarantee own_knob turn_knob "\<lambda>a b. a = None \<or> a \<noteq> b"
  by unfold_locales (auto simp: own_knob_def turn_knob_def)

definition knob_written :: "('d, 'p) kcall \<Rightarrow> knob option" where
  "knob_written c = (case c of C_knob k dv wr buf \<Rightarrow> if wr then Some k else None | _ \<Rightarrow> None)"

lemma knob_written_Some: "knob_written c = Some k \<longleftrightarrow> (\<exists>dv buf. c = C_knob k dv True buf)"
  by (cases c) (auto simp: knob_written_def)

text \<open>
  What a writer leaves, given the view of its knob at the start: the answer of
  \<open>proc_dointvec\<close>, its value in the mirror, and the field in line with it.
\<close>

definition knob_left :: "knob \<Rightarrow> cret \<times> int \<Rightarrow> aegis_state \<Rightarrow> thread \<Rightarrow> bool" where
  "knob_left k rv t th \<longleftrightarrow> th = Done (fst rv) \<and> knob_mirror k t = snd rv \<and> knob_synced k t"

lemma view_synced: "knob_synced k s \<longleftrightarrow> snd (knob_view s k) = knob_conv k (fst (knob_view s k))"
  by (simp add: knob_synced_def knob_view_def)

lemma meets_knob_log:
  assumes "knob_view s k = (v, knob_conv k v)"
  shows "meets (own_knob (Some k)) (turn_knob (Some k)) (knob_left k (ret0, v)) s (knob_log k)"
proof -
  have ended: "meets (own_knob (Some k)) (turn_knob (Some k)) (knob_left k (ret0, v)) t (Done ret0)"
    if "knob_view t k = (v, knob_conv k v)" for t
    by (rule meets_done)
      (use that in \<open>simp add: own_knob_def knob_left_def view_synced, simp add: knob_view_def\<close>)
  show ?thesis
    unfolding knob_log_def finish.simps
    by (intro meets_step conjI) (use assms in \<open>auto intro!: meets_step ended
        simp: knob_view_steps turn_knob_def own_knob_def\<close>)
qed

lemma meets_knob_commit:
  assumes "fst (knob_view s k) = v"
  shows "meets (own_knob (Some k)) (turn_knob (Some k)) (knob_left k (ret0, v)) s (knob_commit k)"
proof -
  have "meets (own_knob (Some k)) (turn_knob (Some k)) (knob_left k (ret0, v)) t (knob_assign k v)"
    if "fst (knob_view t k) = v" for t
    unfolding knob_assign_def
    by (intro meets_step conjI)
      (use that in \<open>auto intro!: meets_knob_log simp: knob_view_steps turn_knob_def own_knob_def\<close>)
  moreover have "knob_mirror k t = v" if "own_knob (Some k) s t" for t
    using that assms by (auto simp: own_knob_def knob_view_def)
  ultimately show ?thesis
    unfolding knob_commit_def
    by (intro meets_step conjI) (auto simp: turn_knob_def knob_view_def)
qed

lemma meets_knob_write:
  assumes "dointvec_laws dv" "knob_synced k s"
  shows "meets (own_knob (Some k)) (turn_knob (Some k)) (knob_left k (dv True buf (knob_mirror k s))) s
    (knob_handler_t k dv True buf)"
  unfolding knob_handler_t_def
proof (rule meets_step, goal_cases)
  case (1 t)
  obtain r v where rv: "dv True buf (knob_mirror k s) = (r, v)" by fastforce
  have t: "knob_view t k = knob_view s k" using 1 by (simp add: own_knob_def)
  then have m: "knob_mirror k t = knob_mirror k s" by (simp add: knob_view_def)
  have turned: "turn_knob (Some k) t (knob_store k v t)" by (simp add: turn_knob_def knob_view_steps)
  show ?case
  proof (cases "r = ret0")
    case True
    have "meets (own_knob (Some k)) (turn_knob (Some k)) (knob_left k (ret0, v)) (knob_store k v t) (knob_commit k)"
      by (rule meets_knob_commit) (simp add: knob_view_steps)
    then show ?thesis using turned by (simp add: m rv True)
  next
    case False
    then have v: "v = knob_mirror k s" using assms(1) rv unfolding dointvec_laws_def by (metis fst_conv snd_conv)
    have "knob_left k (r, v) u (Done r)" if "own_knob (Some k) (knob_store k v t) u" for u
      using that t assms(2) v by (auto simp: own_knob_def knob_left_def view_synced knob_view_steps)
        (simp_all add: knob_view_def)
    then show ?thesis using turned False by (auto simp: m rv intro!: meets_done)
  qed
qed

lemma call_keeps_view:
  assumes "knob_written c = None" "\<And>k dv wr buf. c = C_knob k dv wr buf \<Longrightarrow> dointvec_laws dv"
  shows "keeps (\<lambda>s. knob_view s = V) (thread_of c)"
proof (cases c)
  case (C_knob k dv wr buf)
  then have wr: "wr = False" and dv: "snd (dv False buf v) = v" for v
    using assms by (auto simp: knob_written_def dointvec_laws_def split: if_splits)
  have "(knob_view s)(k := (knob_mirror k s, snd (knob_view s k))) = knob_view s" for s
    by (simp add: fun_eq_iff knob_view_def)
  then show ?thesis
    by (auto simp: C_knob wr knob_handler_t_def case_prod_beta dv knob_view_steps intro!: keeps_step)
qed (auto intro!: keeps_hooks keeps_list_ops knob_view_policy simp: knob_view_lists)

text \<open>The contract of a call: a writer leaves its knob so, the other calls leave all knobs alone.\<close>

definition knob_outcome :: "aegis_state \<Rightarrow> ('d, 'p) kcall \<Rightarrow> aegis_state \<Rightarrow> thread \<Rightarrow> bool" where
  "knob_outcome s c t th \<longleftrightarrow>
     (\<forall>k dv buf. c = C_knob k dv True buf \<longrightarrow> knob_left k (dv True buf (knob_mirror k s)) t th)"

lemma call_meets_knobs:
  assumes "sysctl_sync s" "\<And>k dv wr buf. c = C_knob k dv wr buf \<Longrightarrow> dointvec_laws dv"
  shows "meets (own_knob (knob_written c)) (turn_knob (knob_written c)) (knob_outcome s c) s (thread_of c)"
proof (cases "knob_written c")
  case None
  then have "knob_outcome s c = (\<lambda>_ _. True)" by (auto simp: fun_eq_iff knob_outcome_def knob_written_def)
  moreover have "turn_knob None x y" if "knob_view y = knob_view x" for x y
    using that by (simp add: turn_knob_def)
  ultimately show ?thesis
    unfolding None using keeps_meets [OF call_keeps_view [OF None assms(2)]] by simp
next
  case (Some k)
  then obtain dv buf where c: "c = C_knob k dv True buf"
    by (auto simp: knob_written_Some)
  have "knob_synced k s" using assms(1) by (simp add: sync_all_knobs)
  from meets_knob_write [OF assms(2) [OF c] this, of buf]
  have "meets (own_knob (Some k)) (turn_knob (Some k)) (knob_left k (dv True buf (knob_mirror k s))) s (thread_of c)"
    by (simp add: c)
  moreover have "knob_outcome s c = knob_left k (dv True buf (knob_mirror k s))"
    by (intro ext) (auto simp: c knob_outcome_def)
  ultimately show ?thesis using Some by simp
qed


text \<open>What every schedule makes of the knobs, from the contracts of the single calls.\<close>

lemma run_knobs:
  assumes "mt_runs (s, map thread_of cs) n (t, us)" and "sysctl_sync s"
    and "\<forall>k dv wr buf. C_knob k dv wr buf \<in> set cs \<longrightarrow> dointvec_laws dv"
    and "\<forall>i<length cs. \<forall>j<length cs. i \<noteq> j \<longrightarrow> knob_written (cs ! i) = None \<or>
      knob_written (cs ! i) \<noteq> knob_written (cs ! j)"
  shows "(\<forall>k. (\<forall>i<length cs. knob_written (cs ! i) = Some k \<longrightarrow> (\<exists>r. us ! i = Done r)) \<longrightarrow> knob_synced k t) \<and>
    (\<forall>i<length cs. \<forall>k dv buf r. cs ! i = C_knob k dv True buf \<and> us ! i = Done r \<longrightarrow>
       (r, knob_mirror k t) = dv True buf (knob_mirror k s))"
proof -
  let ?a = "\<lambda>i. knob_written (cs ! i)" and ?Q = "\<lambda>i. knob_outcome s (cs ! i)"
  define W where "W x y \<longleftrightarrow> (\<forall>k. (\<forall>i<length cs. ?a i \<noteq> Some k) \<longrightarrow> knob_view y k = knob_view x k)" for x y
  have start: "meets (own_knob (?a i)) (turn_knob (?a i)) (?Q i) s (map thread_of cs ! i)" if "i < length cs" for i
    using call_meets_knobs [OF assms(2), of "cs ! i"] assms(3) that by (metis nth_map nth_mem)
  have "W s t \<and> (\<forall>i<length us. meets (own_knob (?a i)) (turn_knob (?a i)) (?Q i) t (us ! i))"
    by (rule kn.run_meets [OF assms(1)]) (use start assms(4) in \<open>auto simp: W_def turn_knob_def\<close>)
  moreover have "length us = length cs" using mt_run_length [OF assms(1)] by simp
  ultimately have W: "W s t" and each: "i < length cs \<Longrightarrow>
      meets (own_knob (?a i)) (turn_knob (?a i)) (?Q i) t (us ! i)" for i by auto
  have left: "?Q i t (Done r)" if "i < length cs" "us ! i = Done r" for i r
    using meets_ended [of "own_knob (?a i)" "turn_knob (?a i)" "?Q i" t "Done r"] each [OF that(1)] that(2)
    by (simp add: kn.rely_refl)
  have "knob_synced k t" if ret: "\<forall>i<length cs. ?a i = Some k \<longrightarrow> (\<exists>r. us ! i = Done r)" for k
  proof (cases "\<exists>i<length cs. ?a i = Some k")
    case True
    then obtain i dv buf r where i: "i < length cs" "cs ! i = C_knob k dv True buf" "us ! i = Done r"
      using ret unfolding knob_written_Some by blast
    from left [OF i(1,3)] i(2) show ?thesis by (simp add: knob_outcome_def knob_left_def)
  next
    case False
    then have "knob_view t k = knob_view s k" using W by (auto simp: W_def)
    then show ?thesis using assms(2) by (simp add: sync_all_knobs view_synced)
  qed
  moreover have "(r, knob_mirror k t) = dv True buf (knob_mirror k s)"
    if "i < length cs" "cs ! i = C_knob k dv True buf" "us ! i = Done r" for i k dv buf r
    using left [OF that(1,3)] that(2) by (simp add: knob_outcome_def knob_left_def)
  ultimately show ?thesis by blast
qed


section \<open>Properties\<close>

text \<open>
  C25: Knobs and hooks agree under concurrency, knob by knob. Starting in sync, when no two of the
  concurrent calls write the same knob, then at every moment of every schedule each knob that no
  call under way is writing shows what the hooks consult, and a writer that has returned has
  stored and reported what \<open>proc_dointvec\<close> made of its input.
\<close>

theorem concurrent_knobs_agree:
  assumes "mt_runs (s, map thread_of cs) n (t, us)" and "sysctl_sync s"
    and "\<forall>k dv wr buf. C_knob k dv wr buf \<in> set cs \<longrightarrow> dointvec_laws dv"
    and "\<forall>i<length cs. \<forall>j<length cs. i \<noteq> j \<longrightarrow> knob_written (cs ! i) = None \<or>
      knob_written (cs ! i) \<noteq> knob_written (cs ! j)"
  shows "(\<forall>k. (\<forall>i<length cs. knob_written (cs ! i) = Some k \<longrightarrow> (\<exists>r. us ! i = Done r)) \<longrightarrow> knob_synced k t) \<and>
    (\<forall>i<length cs. \<forall>k dv buf r. cs ! i = C_knob k dv True buf \<and> us ! i = Done r \<longrightarrow>
       (r, knob_mirror k t) = dv True buf (knob_mirror k s))"
  by (rule run_knobs [OF assms])

theorem concurrent_knobs_agree_witness:
  "\<exists>n t us. mt_runs (aegis_statics, map thread_of
       [C_knob K_enabled demo_dointvec True ''0'', C_knob K_features demo_dointvec True ''1''
        :: (8 word list, string) kcall]) n (t, us) \<and>
     us = [Done ret0, Done ret0] \<and> knob_synced K_enabled t \<and> knob_mirror K_enabled t = 0 \<and> knob_mirror K_features t = 1"
proof -
  let ?cs = "[C_knob K_enabled demo_dointvec True ''0'', C_knob K_features demo_dointvec True ''1''
    :: (8 word list, string) kcall]"
  let ?last = "fold sched [0, 1, 1, 0, 1, 0, 0, 1, 1, 0] (aegis_statics, map thread_of ?cs)"
  have e: "snd ?last = [Done ret0, Done ret0]"
    by (simp add: knob_thread_defs finish.simps demo_dointvec_01)
  obtain n where "mt_runs (aegis_statics, map thread_of ?cs) n ?last"
    using sched_run [of "map thread_of ?cs" "[0, 1, 1, 0, 1, 0, 0, 1, 1, 0]" aegis_statics] by auto
  then obtain t where run: "mt_runs (aegis_statics, map thread_of ?cs) n (t, [Done ret0, Done ret0])"
    using e by (metis prod.collapse)
  have "\<forall>k dv wr buf. C_knob k dv wr buf \<in> set ?cs \<longrightarrow> dointvec_laws dv"
    by (auto simp: demo_dointvec_laws)
  moreover have "\<forall>i<length ?cs. \<forall>j<length ?cs. i \<noteq> j \<longrightarrow> knob_written (?cs ! i) = None \<or>
      knob_written (?cs ! i) \<noteq> knob_written (?cs ! j)"
    by (auto simp: knob_written_def less_Suc_eq)
  ultimately have all: "\<forall>k. (\<forall>i<length ?cs. knob_written (?cs ! i) = Some k \<longrightarrow>
      (\<exists>r. [Done ret0, Done ret0] ! i = Done r)) \<longrightarrow> knob_synced k t"
    and each: "\<forall>i<length ?cs. \<forall>k dv buf r. ?cs ! i = C_knob k dv True buf \<and> [Done ret0, Done ret0] ! i = Done r \<longrightarrow>
       (r, knob_mirror k t) = dv True buf (knob_mirror k aegis_statics)"
    using concurrent_knobs_agree [OF run sysctl_sync_statics] by blast+
  have "knob_synced K_enabled t" using all by (auto simp: less_Suc_eq)
  with run show ?thesis
    using each [rule_format, of 0] each [rule_format, of 1] by (auto simp: demo_dointvec_01)
qed

text \<open>
  C26: Two writers of one knob can leave it and the hooks apart. Whatever the state and the knob,
  a writer of 0 and a writer of 1 can interleave so that both report success and afterwards the
  knob shows 1 while the field the hooks consult is 0.
\<close>

theorem concurrent_knob_writers_disagree:
  assumes "\<forall>v. dv True b0 v = (ret0, 0)" and "\<forall>v. dv True b1 v = (ret0, 1)"
  shows "\<exists>n t. mt_runs (s, map thread_of [C_knob k dv True b0, C_knob k dv True b1]) n (t, [Done ret0, Done ret0]) \<and>
    knob_mirror k t = 1 \<and> knob_field k (aegis_cfg t) = 0 \<and> \<not> knob_synced k t"
proof -
  let ?ts = "[knob_handler_t k dv True b0, knob_handler_t k dv True b1]"
  let ?last = "fold sched [0, 0, 1, 1, 1, 1, 1, 0, 0, 0] (s, ?ts)"
  have ended: "snd ?last = [Done ret0, Done ret0]"
    using assms by (simp add: knob_thread_defs finish.simps)
  have view: "knob_view (fst ?last) k = (1, 0)"
    using assms by (simp add: knob_thread_defs finish.simps knob_view_def knob_store_mirror knob_field_set knob_conv_def)
  obtain n where "mt_runs (s, ?ts) n ?last"
    using sched_run [of ?ts "[0, 0, 1, 1, 1, 1, 1, 0, 0, 0]" s] by auto
  then have "mt_runs (s, ?ts) n (fst ?last, [Done ret0, Done ret0])" using ended by (metis prod.collapse)
  moreover have "\<not> knob_synced k (fst ?last)" using view by (simp add: view_synced knob_conv_def)
  ultimately show ?thesis using view by (auto simp: knob_view_def)
qed

theorem concurrent_knob_writers_disagree_witness:
  "\<exists>n t. mt_runs (aegis_statics, map thread_of [C_knob K_enabled demo_dointvec True ''0'',
       C_knob K_enabled demo_dointvec True ''1'' :: (8 word list, string) kcall]) n (t, [Done ret0, Done ret0]) \<and>
     knob_mirror K_enabled t = 1 \<and> knob_field K_enabled (aegis_cfg t) = 0 \<and> \<not> knob_synced K_enabled t"
  by (rule concurrent_knob_writers_disagree) (simp_all add: demo_dointvec_01)

end
