(* ===== verification/Aegis_Rounds.thy ===== *)
theory Aegis_Rounds
  imports Aegis_Serial Aegis_Knobs
begin

unbundle bit_operations_syntax

text \<open>
  The module in operation with nothing atomic but the steps of its threads. Requests arrive in
  rounds: the requests of a round (control writes of any bytes by anyone, hook calls, accesses to
  the knobs) run concurrently, under any schedule, until all of them have ended; then the next
  round starts. A request that arrives late is a thread that is scheduled late, so a round is
  what happens between two moments with no call under way. The lists and the knobs keep their
  invariants from round to round as long as the administrators of one round do not write about the
  same object at once, and there is room on the lists for what they add.
\<close>

section \<open>Control writes as calls\<close>

text \<open>The list operation a control write calls after parsing its input, if it gets so far.\<close>

definition ctl_text :: "('d, 'p) ctl_env \<Rightarrow> string \<Rightarrow> nat \<Rightarrow> nat \<Rightarrow> string option" where
  "ctl_text env ubuf len maxlen =
     (case aectl_get_string ubuf len (ctl_junk env) maxlen of
        (Inl _, _) \<Rightarrow> None
      | (Inr n, buf) \<Rightarrow> if n = 0 then None else Some buf)"

definition ctl_path :: "('d, 'p) ctl_env \<Rightarrow> string \<Rightarrow> nat \<Rightarrow> string option" where
  "ctl_path env ubuf len =
     (if \<not> aectl_authorized env \<or> len = 0 \<or> AEGIS_PATH_LEN < len \<or> \<not> ctl_kmalloc env then None
      else ctl_text env ubuf len AEGIS_PATH_LEN)"

definition ctl_proc :: "('d, 'p) ctl_env \<Rightarrow> string \<Rightarrow> nat \<Rightarrow> (string \<times> int) option" where
  "ctl_proc env ubuf len =
     (if \<not> aectl_authorized env \<or> len = 0 \<or> AEGIS_PATH_LEN \<le> len then None
      else
        (case ctl_text env ubuf len AEGIS_PATH_LEN of
           None \<Rightarrow> None
         | Some buf \<Rightarrow>
             (case sscanf_15s_d buf (ctl_junk env) 0 of
                (convs, comm, pid) \<Rightarrow> if convs < 1 then None else Some (comm, pid))))"

definition ctl_number :: "('d, 'p) ctl_env \<Rightarrow> string \<Rightarrow> nat \<Rightarrow> int option" where
  "ctl_number env ubuf len =
     (if \<not> aectl_authorized env \<or> len = 0 \<or> 16 \<le> len then None
      else
        (case ctl_text env ubuf len 16 of
           None \<Rightarrow> None
         | Some buf \<Rightarrow>
             (case kstrtoint buf of Inl _ \<Rightarrow> None | Inr nr \<Rightarrow> if nr < 0 then None else Some nr)))"

primrec write_call ::
    "('d, 'p) ctl_env \<Rightarrow> string \<Rightarrow> nat \<Rightarrow> endpoint \<Rightarrow> ('d, 'p) kcall option" where
  "write_call env ubuf len Files_add =
     map_option (\<lambda>p. C_file_add (ctl_file env) (Some p)) (ctl_path env ubuf len)"
| "write_call env ubuf len Files_del = map_option (\<lambda>p. C_file_del (Some p)) (ctl_path env ubuf len)"
| "write_call env ubuf len Procs_add =
     map_option (\<lambda>(c, p). C_proc_add (ctl_entry_kmalloc env) (Some c) p) (ctl_proc env ubuf len)"
| "write_call env ubuf len Procs_del =
     map_option (\<lambda>(c, p). C_proc_del (Some c) p) (ctl_proc env ubuf len)"
| "write_call env ubuf len Syscalls_add =
     map_option (C_syscall_add (ctl_entry_kmalloc env)) (ctl_number env ubuf len)"
| "write_call env ubuf len Syscalls_del = map_option C_syscall_del (ctl_number env ubuf len)"

lemma write_op_call:
  "aectl_write_op env ubuf len oper s =
     (case ctl_path env ubuf len of
        None \<Rightarrow> Some (fst (the (aectl_write_op env ubuf len oper s)), s)
      | Some p \<Rightarrow> map_option (\<lambda>(r, t). (if r = ret0 then Inr len else r, t)) (oper p s))"
  by (auto simp: aectl_write_op_def ctl_path_def ctl_text_def split: sum.split option.split prod.split)

text \<open>A control write is that call, or changes nothing.\<close>

lemma write_is_call:
  "(case write_call env ubuf len ep of
      None \<Rightarrow> \<exists>r. aectl_write env ep ubuf len s = Some (r, s)
    | Some c \<Rightarrow> aectl_write env ep ubuf len s =
        map_option (\<lambda>(r, t). (if r = ret0 then Inr len else r, t)) (call_atomically c s))"
proof (cases ep)
  case Files_add
  then show ?thesis
    using write_op_call [of env ubuf len "\<lambda>buf. aegis_protected_file_add (ctl_file env) (Some buf)" s]
    by (auto simp: aectl_files_add_write_def split: option.split)
next
  case Files_del
  then show ?thesis
    using write_op_call [of env ubuf len "\<lambda>buf s. Some (aegis_protected_file_del (Some buf) s)" s]
    by (auto simp: aectl_files_del_write_def split: option.split)
qed (auto simp: control_defs ctl_proc_def ctl_number_def ctl_text_def split: option.split sum.split prod.split)

lemma ctl_text_string:
  "ctl_text env ubuf len maxlen = Some buf \<Longrightarrow>
   \<exists>n. aectl_get_string ubuf len (ctl_junk env) maxlen = (Inr n, buf)"
  by (auto simp: ctl_text_def split: prod.splits sum.splits if_splits)

lemma write_call_fits:
  assumes "write_call env ubuf len ep = Some c"
  shows "call_fits c"
proof -
  have "file_valid p" if "ctl_path env ubuf len = Some p" for p
    using that get_string_file_valid
    by (fastforce simp: ctl_path_def dest: ctl_text_string split: if_splits)
  moreover have "proc_valid cp" if proc: "ctl_proc env ubuf len = Some cp" for cp
  proof -
    obtain buf n c p where "sscanf_15s_d buf (ctl_junk env) 0 = (Suc n, c, p)" "cp = (c, p)"
      using proc
      by (auto simp: ctl_proc_def not_less_eq_eq Suc_le_eq gr0_conv_Suc
          split: if_splits option.splits prod.splits)
    then show ?thesis using sscanf_comm_len [of buf "ctl_junk env" 0 n c p] by (simp add: proc_valid_def)
  qed
  ultimately show ?thesis using assms by (cases ep) auto
qed


section \<open>Rounds\<close>

datatype ('d, 'p) kreq =
    R_write "('d, 'p) ctl_env" endpoint string nat
  | R_call "('d, 'p) kcall"

text \<open>The list operations are called by control writes only.\<close>

primrec request_call :: "('d, 'p) kreq \<Rightarrow> ('d, 'p) kcall option" where
  "request_call (R_write env ep ubuf len) = write_call env ubuf len ep"
| "request_call (R_call c) = (if call_key c = None then Some c else None)"

definition round_calls :: "('d, 'p) kreq list \<Rightarrow> ('d, 'p) kcall list" where
  "round_calls rs = List.map_filter request_call rs"

text \<open>
  Calls that do not get in each other's way: one alone, or any number that update pairwise
  different keys, with room for these updates, and write pairwise different knobs.
\<close>

definition no_clash :: "('d, 'p) kcall list \<Rightarrow> aegis_state \<Rightarrow> bool" where
  "no_clash cs s \<longleftrightarrow>
     length cs \<le> 1 \<or>
     apart cs \<and> distinct (List.map_filter knob_written cs) \<and>
     (let n = int (length (List.map_filter call_key cs))
      in protected_proc_count s + n < int AEGIS_MAX_PROTECTED_PROCS \<and>
         protected_file_count s + n < int AEGIS_MAX_PROTECTED_FILES \<and>
         blocked_syscall_count s + n < int AEGIS_MAX_BLOCKED_SYSCALLS)"

inductive sys_round :: "('d, 'p) kreq list \<Rightarrow> aegis_state \<Rightarrow> aegis_state \<Rightarrow> bool" where
  sys_round: "no_clash (round_calls rs) s \<Longrightarrow>
     \<forall>k dv wr buf. R_call (C_knob k dv wr buf) \<in> set rs \<longrightarrow> dointvec_laws dv \<Longrightarrow>
     mt_runs (s, map thread_of (round_calls rs)) n (t, us) \<Longrightarrow>
     \<forall>d. \<not> mt_step (t, us) d \<Longrightarrow> sys_round rs s t"

inductive sys_rounds :: "aegis_state \<Rightarrow> ('d, 'p) kreq list list \<Rightarrow> aegis_state \<Rightarrow> bool" for s where
  rounds_none: "sys_rounds s [] s"
| rounds_next: "sys_rounds s rss t \<Longrightarrow> sys_round rs t u \<Longrightarrow> sys_rounds s (rss @ [rs]) u"

lemma round_calls_iff: "c \<in> set (round_calls rs) \<longleftrightarrow> (\<exists>r\<in>set rs. request_call r = Some c)"
  by (auto simp: round_calls_def List.map_filter_def) force

lemma write_call_not_knob: "write_call env ubuf len ep \<noteq> Some (C_knob k dv wr buf)"
  by (cases ep) auto

lemma round_calls_facts:
  "list_all call_fits (round_calls rs)"
  "C_knob k dv wr buf \<in> set (round_calls rs) \<Longrightarrow> R_call (C_knob k dv wr buf) \<in> set rs"
proof -
  have "call_fits c" if "request_call r = Some c" for r :: "('a, 'b) kreq" and c
  proof (cases r)
    case (R_call d)
    with that have "d = c" "call_key c = None" by (simp_all split: if_splits)
    then show ?thesis by (cases c) (auto simp: map_option_case split: option.splits)
  qed (use that write_call_fits in auto)
  then show "list_all call_fits (round_calls rs)" by (auto simp: list_all_iff round_calls_iff)
  show "C_knob k dv wr buf \<in> set (round_calls rs) \<Longrightarrow> R_call (C_knob k dv wr buf) \<in> set rs"
    unfolding round_calls_iff using write_call_not_knob
    by (metis (no_types, lifting) kreq.exhaust request_call.simps option.inject option.simps(3))
qed


section \<open>A round keeps the invariants\<close>

text \<open>One call after all is the sequential operation.\<close>

lemma one_thread_alone:
  "mt_run P (s, [th]) n (t, us) \<Longrightarrow> \<exists>u. us = [u] \<and> alone u t = alone th s"
proof (induction n "(t, us)" arbitrary: t us rule: mt_run.induct)
  case (mt_next n d)
  obtain v vs where d: "d = (v, vs)" by (cases d)
  with mt_next obtain u where u: "vs = [u]" "alone u v = alone th s" by blast
  from mt_next(3) d u show ?case by (auto elim!: mt_stepE)
qed simp

lemma after_call_wf:
  assumes "lists_wf s" "call_fits c" "call_key c \<noteq> None"
  shows "lists_wf (after_call c s)"
proof (cases c)
  case (C_file_add fe f)
  with assms(3) obtain p where p: "f = Some p" by auto
  show ?thesis
  proof (cases "aegis_protected_file_add fe f s")
    case (Some x)
    then obtain r t where x: "aegis_protected_file_add fe (Some p) s = Some (r, t)" by (cases x) (simp add: p)
    then have "after_call c s = t" by (simp add: after_call_def C_file_add p)
    with C_file_add p show ?thesis
      using files_wf_add [OF _ _ x] assms(1,2) file_add_frame [OF x] wf_by_fields [of t s]
      by (simp add: lists_wf_def)
  qed (use C_file_add assms(1) in \<open>simp add: after_call_def\<close>)
next
  case (C_proc_add km comm p)
  with assms(3) obtain n where n: "comm = Some n" by auto
  have "after_call c s = snd (aegis_protect_process_add km (Some n) p s)"
    by (simp add: after_call_def C_proc_add n case_prod_beta)
  then show ?thesis
    using procs_wf_add [of s n km p] assms(1,2) C_proc_add n
      wf_by_fields [of "snd (aegis_protect_process_add km (Some n) p s)" s]
    by (simp add: lists_wf_def proc_valid_def)
next
  case (C_proc_del comm p)
  have "after_call c s = snd (aegis_protect_process_del comm p s)"
    by (simp add: after_call_def C_proc_del case_prod_beta)
  then show ?thesis
    using procs_wf_del [of s comm p] assms(1)
      wf_by_fields [of "snd (aegis_protect_process_del comm p s)" s]
    by (simp add: lists_wf_def)
next
  case (C_file_del f)
  have "after_call c s = snd (aegis_protected_file_del f s)"
    by (simp add: after_call_def C_file_del case_prod_beta)
  then show ?thesis
    using files_wf_del [of s f] assms(1) wf_by_fields [of "snd (aegis_protected_file_del f s)" s]
    by (simp add: lists_wf_def)
next
  case (C_syscall_add km nr)
  have "after_call c s = snd (aegis_syscall_block_add km nr s)"
    by (simp add: after_call_def C_syscall_add case_prod_beta)
  then show ?thesis
    using syscalls_wf_add [of s km nr] assms(1) wf_by_fields [of "snd (aegis_syscall_block_add km nr s)" s]
    by (simp add: lists_wf_def)
next
  case (C_syscall_del nr)
  have "after_call c s = snd (aegis_syscall_block_del nr s)"
    by (simp add: after_call_def C_syscall_del case_prod_beta)
  then show ?thesis
    using syscalls_wf_del [of s nr] assms(1) wf_by_fields [of "snd (aegis_syscall_block_del nr s)" s]
    by (simp add: lists_wf_def)
qed (use assms(3) in simp_all)

lemma round_lists:
  assumes "mt_runs (s, map thread_of cs) n (t, us)" "\<forall>d. \<not> mt_step (t, us) d"
    and "lists_wf s" "list_all call_fits cs" "no_clash cs s"
  shows "lists_wf t"
proof (cases "length cs \<le> 1")
  case True
  then consider (other) "list_all (\<lambda>c. call_key c = None) cs"
    | (update) c where "cs = [c]" "call_key c \<noteq> None"
    by (cases cs) auto
  then show ?thesis
  proof cases
    case other
    then have "list_all (keeps (\<lambda>u. lists_of u = lists_of s)) (map thread_of cs)"
      by (auto simp: list_all_iff intro: call_keeps_lists)
    from mt_run_keeps [OF assms(1) _ this] have "lists_of t = lists_of s"
      using mt_run_holds by fastforce
    with same_lists(1) assms(3) show ?thesis by blast
  next
    case (update c)
    with assms(1) obtain u where u: "us = [u]" "alone u t = alone (thread_of c) s"
      using one_thread_alone by fastforce
    have "u \<noteq> Step f" for f using stuck_ended [OF assms(2), of 0] u(1) by auto
    then have "alone u t = (u, t)" by (cases u) auto
    then have "t = after_call c s" by (simp add: after_call_alone flip: u(2))
    with after_call_wf [of s c] assms(3,4) update show ?thesis by simp
  qed
next
  case False
  let ?U = "entry_key ` all_entries s \<union> keys_touched cs"
  have "room ?U" "steady ?U s" "apart cs"
    using room_for_calls [OF assms(3), of cs] assms(3,5) False
    by (auto simp: steady_def no_clash_def Let_def)
  from run_by_keys(1) [OF assms(1) this assms(4)] show ?thesis by (simp add: steady_def)
qed

lemma round_knobs:
  assumes "mt_runs (s, map thread_of cs) n (t, us)" "\<forall>d. \<not> mt_step (t, us) d"
    and "sysctl_sync s" "\<forall>k dv wr buf. C_knob k dv wr buf \<in> set cs \<longrightarrow> dointvec_laws dv"
    and "no_clash cs s"
  shows "sysctl_sync t"
proof -
  have len: "length us = length cs" using mt_run_length [OF assms(1)] by simp
  have "\<exists>r. us ! i = Done r" if i: "i < length cs" "knob_written (cs ! i) = Some k" for i k
  proof -
    have "call_ends (cs ! i) (us ! i)"
      using mt_run_ends [OF assms(1) i(1) relies_call_ends] stuck_ended [OF assms(2)] i(1) len by simp
    with i(2) show ?thesis by (auto simp: call_ends_def knob_written_Some)
  qed
  moreover have "\<forall>i<length cs. \<forall>j<length cs. i \<noteq> j \<longrightarrow>
      knob_written (cs ! i) = None \<or> knob_written (cs ! i) \<noteq> knob_written (cs ! j)"
    using assms(5) distinct_map_filter_nth [of knob_written cs]
    by (cases "length cs \<le> 1") (auto simp: no_clash_def)
  ultimately show ?thesis
    using run_knobs [OF assms(1,3,4)] unfolding sync_all_knobs by blast
qed

lemma sys_round_inv:
  assumes "sys_round rs s t" "sys_inv s"
  shows "sys_inv t"
  using assms(1)
proof cases
  case r: (sys_round n us)
  have "lists_wf t"
    using round_lists [OF r(3,4) _ round_calls_facts(1) r(1)] assms(2) by (simp add: sys_inv_def)
  moreover have "sysctl_sync t"
  proof (rule round_knobs [OF r(3,4) _ _ r(1)])
    show "sysctl_sync s" using assms(2) by (simp add: sys_inv_def)
    show "\<forall>k dv wr buf. C_knob k dv wr buf \<in> set (round_calls rs) \<longrightarrow> dointvec_laws dv"
      using r(2) round_calls_facts(2) by blast
  qed
  ultimately show ?thesis by (simp add: sys_inv_def)
qed

lemma sys_rounds_inv: "sys_rounds s rss t \<Longrightarrow> sys_inv s \<Longrightarrow> sys_inv t"
  by (induction rule: sys_rounds.induct) (auto intro: sys_round_inv)

text \<open>The rounds of calls one after another.\<close>

lemma round_in_turn:
  assumes "no_clash (round_calls rs) s"
    and "\<forall>k dv wr buf. R_call (C_knob k dv wr buf) \<in> set rs \<longrightarrow> dointvec_laws dv"
  shows "sys_round rs s (in_turn (round_calls rs) s)"
proof -
  obtain n us where r: "mt_runs (s, map thread_of (round_calls rs)) n (in_turn (round_calls rs) s, us)"
    "length us = length (round_calls rs)" "\<forall>i<length (round_calls rs). \<forall>f. us ! i \<noteq> Step f"
    using in_turn_run [of s "round_calls rs"] by blast
  moreover have "\<forall>d. \<not> mt_step (in_turn (round_calls rs) s, us) d"
    using r(2,3) by (auto elim!: mt_step.cases)
  ultimately show ?thesis using assms by (blast intro: sys_round)
qed


section \<open>A round for evaluation\<close>

definition demo_round :: "(8 word list, unit) kreq list" where
  "demo_round =
     [R_write (demo_ctl True) Syscalls_add ''7'' 1, R_write (demo_ctl True) Syscalls_del ''12'' 2,
      R_write (demo_ctl False) Procs_del ''sshd'' 4,
      R_call (C_knob K_module_loading_denied demo_dointvec True ''1''),
      R_call (C_knob K_enabled demo_dointvec True ''0'')]"

lemma demo_round_calls:
  "round_calls demo_round =
     [C_syscall_add True 7, C_syscall_del 12,
      C_knob K_module_loading_denied demo_dointvec True ''1'', C_knob K_enabled demo_dointvec True ''0'']"
proof -
  have "ctl_number (demo_ctl True) ''7'' 1 = Some 7" "ctl_number (demo_ctl True) ''12'' 2 = Some 12"
    by code_simp+
  moreover have "ctl_proc (demo_ctl False) ''sshd'' 4 = None"
    by (simp add: ctl_proc_def aectl_authorized_def demo_ctl_def)
  ultimately show ?thesis
    by (simp add: demo_round_def round_calls_def map_filter_simps)
qed

lemma demo_round_facts:
  "no_clash (round_calls demo_round) (boot_state demo_boot)"
  "\<forall>k dv wr buf. R_call (C_knob k dv wr buf) \<in> set demo_round \<longrightarrow> dointvec_laws dv"
proof -
  have "protected_proc_count (boot_state demo_boot) = int (card default_procs)"
    "protected_file_count (boot_state demo_boot) = 0"
    "blocked_syscall_count (boot_state demo_boot) = int (card default_syscalls)"
    using boot_state_facts(1) [of demo_boot] boot_state_facts(4-6) [of demo_boot]
      pl.count_card [of "boot_state demo_boot"] fl.count_card [of "boot_state demo_boot"]
      sl.count_card [of "boot_state demo_boot"]
    by (simp_all add: lists_wf_def procs_wf_def files_wf_def syscalls_wf_def proc_keys_def
        file_keys_def blocked_set_def demo_boot_def)
  then show "no_clash (round_calls demo_round) (boot_state demo_boot)"
    by (simp add: demo_round_calls map_filter_simps no_clash_def apart_def
        knob_written_def aegis_consts default_procs_def default_syscalls_def syscall_nrs)
  show "\<forall>k dv wr buf. R_call (C_knob k dv wr buf) \<in> set demo_round \<longrightarrow> dointvec_laws dv"
    by (auto simp: demo_round_def demo_dointvec_laws)
qed


section \<open>Properties\<close>

text \<open>
  C3: Whenever no call is under way, the lists and the knobs are in order. From any boot, after
  any number of rounds of concurrent requests (control writes of arbitrary bytes by anyone, hook
  calls, accesses to the knobs, interleaved step by step under any schedule until all have
  ended), the three lists are well formed (no duplicates, within their capacity, counters exact,
  terminated names) and each knob shows what the hooks consult; provided that in each round the
  requests come singly, or no two update the same list entry, no two write the same knob, and the
  lists have room for all additions and removals of the round.
\<close>

theorem quiescent_states_safe:
  assumes "sys_rounds (boot_state env) rss s"
  shows "lists_wf s \<and> sysctl_sync s"
  using sys_rounds_inv [OF assms boot_inv] by (simp add: sys_inv_def)

theorem quiescent_states_safe_witness:
  "\<exists>s. sys_rounds (boot_state demo_boot) [demo_round] s \<and> lists_wf s \<and> sysctl_sync s"
proof -
  have "sys_rounds (boot_state demo_boot) ([] @ [demo_round])
      (in_turn (round_calls demo_round) (boot_state demo_boot))"
    by (rule rounds_next [OF rounds_none round_in_turn [OF demo_round_facts]])
  with quiescent_states_safe [OF this] show ?thesis by auto
qed

end
