(* ===== verification/Aegis_Windows.thy ===== *)
theory Aegis_Windows
  imports Aegis_Schedules
begin

text \<open>
  Hooks with two reasons to deny. A load is refused because its system call is blocked or
  because module loading is denied; an attachment because all ptrace is restricted or because
  the target is protected. The hooks look at the two reasons in different steps. One reason that
  stays forces the verdict under every schedule; a policy that goes from one reason to the other
  leaves a window, although it denies at every moment.
\<close>

section \<open>Loading\<close>

text \<open>The system call behind a load, and whether the module switch is about it.\<close>

definition load_request :: "('d, 'p) kcall \<Rightarrow> (int \<times> bool) option" where
  "load_request c =
     (case c of
        C_read_file ke f rid b \<Rightarrow>
          Some (if rid = READING_MODULE then 313
                else if rid \<in> {READING_KEXEC_IMAGE, READING_KEXEC_INITRAMFS} then 320 else -1,
                rid \<in> {READING_MODULE, READING_FIRMWARE})
      | C_load_data ke lid b \<Rightarrow>
          Some (if lid = LOADING_MODULE then 175
                else if lid = LOADING_KEXEC_IMAGE then 246 else -1,
                lid = LOADING_MODULE)
      | _ \<Rightarrow> None)"

lemmas loading_thread_defs =
  aegis_kernel_read_file_t_def aegis_kernel_load_data_t_def kernel_read_control_t_def
  is_syscall_blocked_t_def

lemma load_request_cases:
  assumes "load_request c = Some (nr, ctl)"
  obtains (read) ke f rid b where "c = C_read_file ke f rid b" "nr = aegis_read_id_to_syscall rid"
      "ctl = (rid \<in> {READING_MODULE, READING_FIRMWARE})"
    | (data) ke lid b where "c = C_load_data ke lid b" "ctl = (lid = LOADING_MODULE)"
      "nr = (if lid = LOADING_MODULE then NR_init_module
         else if lid = LOADING_KEXEC_IMAGE then NR_kexec_load else -1)"
proof (cases c)
  case (C_read_file ke f rid b)
  have "nr = aegis_read_id_to_syscall rid" "ctl = (rid \<in> {READING_MODULE, READING_FIRMWARE})"
    using assms C_read_file by (cases rid; simp add: load_request_def syscall_nrs)+
  from read [OF C_read_file this] show ?thesis .
next
  case (C_load_data ke lid b)
  have "ctl = (lid = LOADING_MODULE)" "nr = (if lid = LOADING_MODULE then NR_init_module
      else if lid = LOADING_KEXEC_IMAGE then NR_kexec_load else -1)"
    using assms C_load_data by (auto simp: load_request_def syscall_nrs)
  from data [OF C_load_data this] show ?thesis .
qed (use assms in \<open>simp_all add: load_request_def\<close>)

lemma hit_blocked: "list_ex (syscall_hit nr) (blocked_syscalls u) \<longleftrightarrow> nr \<in> blocked_set u"
  by (auto simp: list_ex_iff syscall_hit_def blocked_set_def)

lemma feature_enabled: "AEGIS_FEATURE_CHECK f u \<Longrightarrow> enabled (aegis_cfg u)"
  by (simp add: AEGIS_FEATURE_CHECK_def)

lemma relies_load_blocked:
  assumes "load_request c = Some (nr, ctl)" "0 \<le> nr"
  shows "relies (\<lambda>u. AEGIS_FEATURE_CHECK AEGIS_FEATURE_SYSCALL_AUDIT u \<and>
      syscall_audit_enable (aegis_cfg u) \<and> nr \<in> blocked_set u)
    (\<lambda>th. th = Done (Inl EPERM)) (thread_of c)"
  using assms(1)
proof (cases rule: load_request_cases)
  case (read ke f rid b)
  then show ?thesis using assms(2)
    by (auto simp: loading_thread_defs hit_blocked feature_enabled Let_def intro!: relies_test relies_feature)
next
  case (data ke lid b)
  then show ?thesis using assms(2)
    by (cases lid) (auto simp: loading_thread_defs hit_blocked feature_enabled Let_def intro!: relies_test relies_feature)
qed

lemma relies_load_denied:
  assumes "load_request c = Some (nr, True)"
  shows "relies (\<lambda>u. AEGIS_FEATURE_CHECK AEGIS_FEATURE_MODULE_CONTROL u \<and> module_loading_denied (aegis_cfg u))
    (\<lambda>th. \<exists>e. th = Done (Inl e)) (thread_of c)"
  using assms
proof (cases rule: load_request_cases)
  case (read ke f rid b)
  then show ?thesis
    by (auto simp: loading_thread_defs feature_enabled Let_def intro!: relies_test relies_feature split: option.split sum.split)
next
  case (data ke lid b)
  then show ?thesis
    by (auto simp: loading_thread_defs feature_enabled Let_def intro!: relies_test relies_feature)
qed

lemma relies_load_allowed:
  assumes "load_request c = Some (nr, ctl)"
  shows "relies (\<lambda>u. nr \<notin> blocked_set u \<and> (ctl \<longrightarrow> \<not> module_loading_denied (aegis_cfg u)))
    (\<lambda>th. th = Done ret0) (thread_of c)"
  using assms
proof (cases rule: load_request_cases)
  case (read ke f rid b)
  then show ?thesis
    by (auto simp: loading_thread_defs hit_blocked Let_def intro!: relies_test relies_feature)
next
  case (data ke lid b)
  then show ?thesis
    by (cases lid) (auto simp: loading_thread_defs hit_blocked Let_def intro!: relies_test relies_feature)
qed


section \<open>Schedules that keep a condition\<close>

fun sched_holds ::
    "(aegis_state \<Rightarrow> bool) \<Rightarrow> thread list \<Rightarrow> nat list \<Rightarrow> aegis_state \<times> thread list \<Rightarrow> bool" where
  "sched_holds P us [] c \<longleftrightarrow> P (fst c) \<and> snd c = us"
| "sched_holds P us (i # is) c \<longleftrightarrow> P (fst c) \<and> i < length (snd c) \<and> sched_holds P us is (sched i c)"

lemma sched_holds_run: "sched_holds P us is c \<Longrightarrow> \<exists>n t. mt_run P c n (t, us)"
proof (induction "is" arbitrary: c)
  case Nil
  then show ?case using mt_none [of P c] by (cases c) auto
next
  case (Cons i "is")
  obtain s ts where c: "c = (s, ts)" by (cases c)
  obtain n t where n: "mt_run P (sched i c) n (t, us)"
    using Cons.IH [of "sched i c"] Cons.prems by auto
  show ?case
  proof (cases "ts ! i")
    case (Step f)
    then have "mt_step (s, ts) (sched i c)" using Cons.prems mt_step [of i ts f s] by (simp add: c)
    moreover have "P (fst (sched i c))" using Cons.prems by (cases "is") auto
    ultimately have "mt_run P c (Suc 0) (sched i c)"
      using Cons.prems mt_next [OF mt_none] by (simp add: c)
    from mt_run_trans [OF n this] show ?thesis by blast
  qed (use n c in auto)
qed


section \<open>Attaching\<close>

lemma attach_denied_iff:
  "fst (aegis_ptrace_access_check ke child mode u) = Inl EPERM \<longleftrightarrow>
     AEGIS_FEATURE_CHECK AEGIS_FEATURE_PTRACE_RESTRICT u \<and>
     (ptrace_restrict_all (aegis_cfg u) \<or>
      AEGIS_FEATURE_CHECK AEGIS_FEATURE_PROCESS_PROTECT u \<and>
      list_ex (proc_entry_protects child) (protected_procs u))"
  by (auto simp: aegis_ptrace_access_check_def aegis_is_process_protected_def Let_def)


section \<open>Properties\<close>

text \<open>
  C8: A standing reason decides every load. Whatever runs concurrently: while the system call
  behind a load (\<open>finit_module\<close>, \<open>kexec_file_load\<close>, \<open>init_module\<close>, \<open>kexec_load\<close>) stays on the
  blocked list, the syscall audit feature stays on and \<open>syscall_audit_enable\<close> set, the load is
  refused with \<open>-EPERM\<close>; while the module control feature stays on and \<open>module_loading_denied\<close>
  set, a module load (from a file or from memory) and a firmware load from a file are refused
  (firmware from memory is not a case of module control); while neither the blocked list nor,
  for those loads, \<open>module_loading_denied\<close> gives a reason, the load is allowed.
\<close>

theorem loading_verdict_under_interleaving:
  assumes "i < length cs" and "load_request (cs ! i) = Some (nr, ctl)" and "us ! i = Done r"
  shows "(0 \<le> nr \<longrightarrow> mt_run (\<lambda>u. AEGIS_FEATURE_CHECK AEGIS_FEATURE_SYSCALL_AUDIT u \<and>
            syscall_audit_enable (aegis_cfg u) \<and> nr \<in> blocked_set u)
          (s, map thread_of cs) n (t, us) \<longrightarrow> r = Inl EPERM) \<and>
    (ctl \<longrightarrow> mt_run (\<lambda>u. AEGIS_FEATURE_CHECK AEGIS_FEATURE_MODULE_CONTROL u \<and>
            module_loading_denied (aegis_cfg u))
          (s, map thread_of cs) n (t, us) \<longrightarrow> r \<noteq> ret0) \<and>
    (mt_run (\<lambda>u. nr \<notin> blocked_set u \<and> (ctl \<longrightarrow> \<not> module_loading_denied (aegis_cfg u)))
          (s, map thread_of cs) n (t, us) \<longrightarrow> r = ret0)"
proof (intro conjI impI)
  have fin: "us ! i \<noteq> Step f" for f using assms(3) by simp
  note ends = mt_run_ends [OF _ assms(1) _ fin, unfolded assms(3) thread.inject]
  show "r = Inl EPERM" if "0 \<le> nr"
    "mt_run (\<lambda>u. AEGIS_FEATURE_CHECK AEGIS_FEATURE_SYSCALL_AUDIT u \<and>
       syscall_audit_enable (aegis_cfg u) \<and> nr \<in> blocked_set u) (s, map thread_of cs) n (t, us)"
    using ends [OF that(2) relies_load_blocked [OF assms(2) that(1)]] by simp
  show "r \<noteq> ret0" if ctl
    "mt_run (\<lambda>u. AEGIS_FEATURE_CHECK AEGIS_FEATURE_MODULE_CONTROL u \<and> module_loading_denied (aegis_cfg u))
       (s, map thread_of cs) n (t, us)"
    using ends [OF that(2) relies_load_denied [of _ nr]] assms(2) that(1) by auto
  show "r = ret0" if "mt_run (\<lambda>u. nr \<notin> blocked_set u \<and> (ctl \<longrightarrow> \<not> module_loading_denied (aegis_cfg u)))
       (s, map thread_of cs) n (t, us)"
    using ends [OF that relies_load_allowed [OF assms(2)]] by simp
qed

theorem loading_verdict_under_interleaving_witness:
  "\<exists>n t us r. mt_run (\<lambda>u. AEGIS_FEATURE_CHECK AEGIS_FEATURE_SYSCALL_AUDIT u \<and>
       syscall_audit_enable (aegis_cfg u) \<and> NR_finit_module \<in> blocked_set u)
     (demo_state, map thread_of [C_read_file demo_kenv None READING_MODULE False
        :: (8 word list, string) kcall]) n (t, us) \<and>
     us ! 0 = Done r \<and> r = Inl EPERM"
proof -
  let ?P = "\<lambda>u. AEGIS_FEATURE_CHECK AEGIS_FEATURE_SYSCALL_AUDIT u \<and>
    syscall_audit_enable (aegis_cfg u) \<and> NR_finit_module \<in> blocked_set u"
  let ?c = "C_read_file demo_kenv None READING_MODULE False :: (8 word list, string) kcall"
  have "syscall_audit_enable (aegis_cfg s) = syscall_audit_enable (cfg_policy (aegis_cfg s))" for s
    by (simp add: cfg_policy_def)
  then have P: "by_policy ?P"
    unfolding by_policy_def using feature_check_policy same_lists(4) policy_parts(1,3) by metis
  have "?P demo_state" by (simp add: demo syscall_nrs)
  moreover have "keeps ?P (thread_of ?c)" using keeps_hooks(5) [OF P] by simp
  moreover obtain r t where "call_atomically ?c demo_state = Some (r, t)"
    by (metis call_atomically.simps(12) prod.collapse)
  ultimately obtain n where run: "mt_run ?P (demo_state, map thread_of [?c]) n (t, [Done r])"
    using run_one_call [of ?P ?c demo_state r t] by blast
  have "load_request ?c = Some (NR_finit_module, True)" by (simp add: load_request_def syscall_nrs)
  with loading_verdict_under_interleaving [of 0 "[?c]" NR_finit_module True "[Done r]" r demo_state n t] run
  have "r = Inl EPERM" by (simp add: syscall_nrs)
  with run show ?thesis by (intro exI conjI) auto
qed

text \<open>
  C27: A policy that always denies can still let an attachment through. From any well-formed
  state where a target is protected by one entry of the list, an administrator who restricts all
  ptrace first and removes the entry afterwards keeps a policy that denies attaching at every
  moment; an attachment that has looked at the switch before and looks at the list after is
  allowed.
\<close>

theorem attach_window_between_reasons:
  assumes "procs_wf s" and "(cstr c, p) \<in> proc_keys s" and "protects_task (proc_keys s) child"
    and "\<not> protects_task (proc_keys s - {(cstr c, p)}) child"
    and "AEGIS_FEATURE_CHECK AEGIS_FEATURE_PTRACE_RESTRICT s"
    and "AEGIS_FEATURE_CHECK AEGIS_FEATURE_PROCESS_PROTECT s"
    and "\<not> ptrace_restrict_all (aegis_cfg s)" and "\<forall>v. dv True buf v = (ret0, 1)"
  shows "\<exists>n t. mt_run (\<lambda>u. fst (aegis_ptrace_access_check ke child mode u) = Inl EPERM)
    (s, map thread_of [C_ptrace ke child mode, C_knob K_ptrace_restrict_all dv True buf, C_proc_del (Some c) p])
    n (t, [Done ret0, Done ret0, Done ret0])"
proof -
  have prot: "list_ex (proc_entry_protects child) es \<longleftrightarrow> protects_task (proc_key ` set es) child"
    if "list_all proc_wfe es" for es
    using list_ex_protects [OF that] by (auto simp: protects_task_def case_prod_beta)
  have wf: "list_all proc_wfe (protected_procs s)" using assms(1) by (simp add: procs_wf_def reg_wf_def)
  have old: "list_ex (proc_entry_protects child) (protected_procs s)"
    using prot [OF wf] assms(3) by (simp add: proc_keys_def)
  have "list_ex (proc_hit (c, p)) (protected_procs s)"
    using pl.hit_iff_key [OF wf, of "(c, p)"] assms(2) by (simp add: proc_keys_def proc_norm_def)
  then obtain ps where ps: "del_first (proc_hit (c, p)) (protected_procs s) = Some ps"
    by (cases "del_first (proc_hit (c, p)) (protected_procs s)") auto
  then have gone: "list_all proc_wfe ps" "proc_key ` set ps = proc_keys s - {(cstr c, p)}"
    using procs_wf_del [OF assms(1), of "Some c" p] pl.keys_del [of s "(c, p)"] assms(1)
    by (simp_all add: procs_wf_def reg_wf_def proc_keys_def proc_norm_def aegis_protect_process_del_def)
  then have new: "\<not> list_ex (proc_entry_protects child) ps" using prot assms(4) by simp
  let ?F = "AEGIS_FEATURE_CHECK AEGIS_FEATURE_PTRACE_RESTRICT" and ?G = "AEGIS_FEATURE_CHECK AEGIS_FEATURE_PROCESS_PROTECT"
  let ?P = "\<lambda>u. ?F u \<and> (ptrace_restrict_all (aegis_cfg u) \<or> ?G u \<and> list_ex (proc_entry_protects child) (protected_procs u))"
  obtain X Y where hook: "aegis_ptrace_access_check_t ke child mode =
      AEGIS_FEATURE_CHECK_t AEGIS_FEATURE_PTRACE_RESTRICT (test (\<lambda>s. ptrace_restrict_all (aegis_cfg s)) X
        (AEGIS_FEATURE_CHECK_t AEGIS_FEATURE_PROCESS_PROTECT
          (AEGIS_FEATURE_CHECK_t AEGIS_FEATURE_PROCESS_PROTECT
            (test (\<lambda>s. list_ex (proc_entry_protects child) (protected_procs s)) Y (Done ret0))
            (Done ret0)) (Done ret0))) (Done ret0)"
    unfolding aegis_ptrace_access_check_t_def is_process_protected_t_def by blast
  obtain m where del: "aegis_protect_process_del_t (Some c) p = Step (\<lambda>s.
      case del_first (proc_hit (c, p)) (protected_procs s) of None \<Rightarrow> (Done (Inl ENOENT), s)
      | Some ps \<Rightarrow> (finish [AEGIS_INFO m] ret0,
          s\<lparr>protected_procs := ps, protected_proc_count := protected_proc_count s - 1\<rparr>))"
    unfolding aegis_protect_process_del_t_def option.case by blast
  let ?ts = "[aegis_ptrace_access_check_t ke child mode, knob_handler_t K_ptrace_restrict_all dv True buf,
    aegis_protect_process_del_t (Some c) p]"
  have "sched_holds ?P [Done ret0, Done ret0, Done ret0] [0, 0, 0, 1, 1, 1, 1, 1, 2, 2, 0, 0, 0, 0, 0] (s, ?ts)"
    using assms(5-8) old new ps
    by (simp add: hook del test_def knob_thread_defs finish.simps
        AEGIS_FEATURE_CHECK_t_def AEGIS_FEATURE_CHECK_def del: knob_message.simps)
  from sched_holds_run [OF this] show ?thesis
    unfolding attach_denied_iff list.map thread_of.simps .
qed

theorem attach_window_between_reasons_witness:
  "fst (aegis_ptrace_access_check demo_kenv demo_sshd 0 demo_state) = Inl EPERM \<and>
   (\<exists>n t. mt_run (\<lambda>u. fst (aegis_ptrace_access_check demo_kenv demo_sshd 0 u) = Inl EPERM)
     (demo_state, map thread_of [C_ptrace demo_kenv demo_sshd 0,
        C_knob K_ptrace_restrict_all demo_dointvec True ''1'',
        C_proc_del (Some ''sshd'') 0 :: (8 word list, string) kcall])
     n (t, [Done ret0, Done ret0, Done ret0]))"
proof -
  have "procs_wf demo_state" by (rule demo_wf(1))
  moreover have "(cstr ''sshd'', 0) \<in> proc_keys demo_state" "protects_task (proc_keys demo_state) demo_sshd"
    "\<not> protects_task (proc_keys demo_state - {(cstr ''sshd'', 0)}) demo_sshd"
    by (simp_all add: demo_keys protects_task_def demo_sshd_def cstr_Cons)
  moreover have "\<not> ptrace_restrict_all (aegis_cfg demo_state)" by (simp add: demo_cfg aegis_cfg_init_def)
  moreover have "\<forall>v. demo_dointvec True ''1'' v = (ret0, 1)" by (simp add: demo_dointvec_01)
  ultimately have run: "\<exists>n t. mt_run (\<lambda>u. fst (aegis_ptrace_access_check demo_kenv demo_sshd 0 u) = Inl EPERM)
     (demo_state, map thread_of [C_ptrace demo_kenv demo_sshd 0,
        C_knob K_ptrace_restrict_all demo_dointvec True ''1'',
        C_proc_del (Some ''sshd'') 0 :: (8 word list, string) kcall])
     n (t, [Done ret0, Done ret0, Done ret0])"
    by (intro attach_window_between_reasons) simp_all
  moreover have "fst (aegis_ptrace_access_check demo_kenv demo_sshd 0 demo_state) = Inl EPERM"
    by (simp add: ptrace_verdict [OF demo_wf(1)] protects_task_def demo cstr_Cons)
  ultimately show ?thesis by blast
qed

end
