(* ===== verification/Aegis_Counters.thy ===== *)
theory Aegis_Counters
  imports Aegis_Rely
begin

unbundle bit_operations_syntax

text \<open>
  The violation counters when calls run concurrently. A hook counts a denial in a step of its
  own, an atomic increment, before it returns; this theory follows the increments of every thread
  through all interleavings and shows that in the end the counters have grown by the number of
  denied calls.
\<close>

section \<open>Threads that count\<close>

text \<open>
  A thread that has counted \<open>d\<close> violations so far: every step adds nothing or one to the
  counters, and when it ends \<open>E\<close> holds of what it has counted and how it ended.
\<close>

inductive tallies :: "(nat \<Rightarrow> thread \<Rightarrow> bool) \<Rightarrow> nat \<Rightarrow> thread \<Rightarrow> bool" for E where
  tallies_done: "E d (Done r) \<Longrightarrow> tallies E d (Done r)"
| tallies_fault: "E d Fault \<Longrightarrow> tallies E d Fault"
| tallies_hang: "E d Hang \<Longrightarrow> tallies E d Hang"
| tallies_step: "(\<And>s. violations (snd (f s)) = violations s \<and> tallies E d (fst (f s)) \<or>
     violations (snd (f s)) = violations s + 1 \<and> tallies E (Suc d) (fst (f s))) \<Longrightarrow> tallies E d (Step f)"

inductive_cases tallies_StepE: "tallies E d (Step f)"

lemma tallies_ended: "tallies E d th \<Longrightarrow> (\<And>f. th \<noteq> Step f) \<Longrightarrow> E d th"
  by (erule tallies.cases) auto

lemma tallies_test [intro]: "tallies E d yes \<Longrightarrow> tallies E d no \<Longrightarrow> tallies E d (test b yes no)"
  unfolding test_def by (rule tallies_step) simp

lemma tallies_feature [intro]:
  "tallies E d yes \<Longrightarrow> tallies E d no \<Longrightarrow> tallies E d (AEGIS_FEATURE_CHECK_t f yes no)"
  unfolding AEGIS_FEATURE_CHECK_t_def by (intro tallies_test)

lemma tallies_gates [intro]:
  assumes "tallies E d yes" "tallies E d no"
  shows "tallies E d (is_process_protected_t task yes no)" "tallies E d (is_file_protected_t path yes no)"
    "tallies E d (is_syscall_blocked_t nr yes no)"
  using assms by (auto simp: gate_defs)

lemma tallies_count:
  assumes "\<And>s. violations (u s) = violations s + 1" "tallies E (Suc d) (finish us r)"
  shows "tallies E d (finish (u # us) r)"
  unfolding finish.simps by (rule tallies_step) (use assms in simp)

lemma tallies_same:
  assumes "\<And>s. violations (u s) = violations s" "tallies E d (finish us r)"
  shows "tallies E d (finish (u # us) r)"
  unfolding finish.simps by (rule tallies_step) (use assms in simp)

lemma tallies_books:
  "tallies E (Suc d) (finish us r) \<Longrightarrow> tallies E d (finish (AEGIS_STAT_INC ptrace_blocked_update # us) r)"
  "tallies E (Suc d) (finish us r) \<Longrightarrow> tallies E d (finish (AEGIS_STAT_INC file_violations_update # us) r)"
  "tallies E (Suc d) (finish us r) \<Longrightarrow> tallies E d (finish (AEGIS_STAT_INC syscall_violations_update # us) r)"
  "tallies E (Suc d) (finish us r) \<Longrightarrow> tallies E d (finish (AEGIS_STAT_INC module_violations_update # us) r)"
  "tallies E d (finish us r) \<Longrightarrow> tallies E d (finish (AEGIS_STAT_INC total_events_update # us) r)"
  "tallies E d (finish us r) \<Longrightarrow> tallies E d (finish (AEGIS_AUDIT m # us) r)"
  "E d (Done r) \<Longrightarrow> tallies E d (finish [] r)"
  by (rule tallies_count tallies_same; simp)+ (simp add: finish.simps tallies_done)

text \<open>A thread that leaves the counters alone.\<close>

lemma keeps_tallies:
  assumes "\<And>V. keeps (\<lambda>s. violations s = V) th" "\<And>u. E d u"
  shows "tallies E d th"
  using assms(1)
proof (induction th rule: thread_steps_induct)
  case (Step f)
  show ?case
  proof (rule tallies_step, rule disjI1, rule conjI)
    fix s
    have st: "violations (snd (f s)) = violations s \<and> keeps (\<lambda>s. violations s = V) (fst (f s))" for V
      using Step.prems [of "violations s"] Step.prems [of V] by (auto elim!: keeps_StepE)
    then show "violations (snd (f s)) = violations s" by blast
    show "tallies E d (fst (f s))" by (rule Step.IH) (use st in blast)
  qed
qed (use assms(2) in \<open>auto intro: tallies.intros\<close>)


section \<open>The calls of the module\<close>

text \<open>A call of a hook that has been denied.\<close>

definition hook_denied :: "('d, 'p) kcall \<Rightarrow> thread \<Rightarrow> bool" where
  "hook_denied c th \<longleftrightarrow> (\<exists>e. th = Done (Inl e)) \<and>
     (case c of C_proc_add _ _ _ \<Rightarrow> False | C_proc_del _ _ \<Rightarrow> False | C_file_add _ _ \<Rightarrow> False
      | C_file_del _ \<Rightarrow> False | C_syscall_add _ _ \<Rightarrow> False | C_syscall_del _ \<Rightarrow> False
      | C_knob _ _ _ _ \<Rightarrow> False | _ \<Rightarrow> True)"

text \<open>The module reads whose denial leaves no trace.\<close>

definition call_silent :: "('d, 'p) kcall \<Rightarrow> bool" where
  "call_silent c \<longleftrightarrow>
     (case c of C_read_file env f rid b \<Rightarrow> silent_denial env (Kernel_read_file f rid b) | _ \<Rightarrow> False)"

definition tally_ends :: "('d, 'p) kcall \<Rightarrow> nat \<Rightarrow> thread \<Rightarrow> bool" where
  "tally_ends c d th \<longleftrightarrow> d = of_bool (hook_denied c th)"

lemma tallies_hooks:
  assumes "\<And>d r. E d (Done r) \<longleftrightarrow> d = of_bool (\<exists>e. r = Inl e)"
  shows "tallies E 0 (aegis_ptrace_access_check_t env c m)" "tallies E 0 (aegis_ptrace_traceme_t env c)"
    "tallies E 0 (aegis_file_permission_t env f msk)" "tallies E 0 (aegis_kernel_load_data_t env l b)"
    "tallies E 0 (aegis_task_free_t c)" "tallies E 0 aegis_bprm_check_security_t"
    "\<not> silent_denial env (Kernel_read_file g i b) \<Longrightarrow> tallies E 0 (aegis_kernel_read_file_t env g i b)"
proof -
  note [intro!] = tallies_test tallies_feature tallies_gates tallies_books tallies_done
  note [simp] = assms
  show "tallies E 0 (aegis_ptrace_access_check_t env c m)" "tallies E 0 (aegis_ptrace_traceme_t env c)"
    by (auto simp: aegis_ptrace_access_check_t_def aegis_ptrace_traceme_t_def)
  have prot: "tallies E 0 (file_protected_t env p msk)" for p
    by (auto simp: file_protected_t_def Let_def)
  then show "tallies E 0 (aegis_file_permission_t env f msk)"
    by (auto simp: aegis_file_permission_t_def split: sum.split)
  show "tallies E 0 (aegis_kernel_load_data_t env l b)"
    by (auto simp: aegis_kernel_load_data_t_def Let_def)
  show "tallies E 0 (aegis_task_free_t c)" "tallies E 0 aegis_bprm_check_security_t"
    by (auto simp: aegis_task_free_t_def aegis_bprm_check_security_t_def)
  assume "\<not> silent_denial env (Kernel_read_file g i b)"
  then have "tallies E 0 (kernel_read_control_t env g i)"
    by (auto simp: kernel_read_control_t_def split: option.splits sum.split)
  then show "tallies E 0 (aegis_kernel_read_file_t env g i b)"
    by (auto simp: aegis_kernel_read_file_t_def Let_def)
qed

lemma keeps_violations:
  "keeps (\<lambda>s. violations s = V) (aegis_protect_process_add_t km comm p)"
  "keeps (\<lambda>s. violations s = V) (aegis_protect_process_del_t comm p)"
  "keeps (\<lambda>s. violations s = V) (aegis_protected_file_add_t fe path)"
  "keeps (\<lambda>s. violations s = V) (aegis_protected_file_del_t path)"
  "keeps (\<lambda>s. violations s = V) (aegis_syscall_block_add_t km nr)"
  "keeps (\<lambda>s. violations s = V) (aegis_syscall_block_del_t nr)"
  "keeps (\<lambda>s. violations s = V) (knob_handler_t k dv wr buf)"
proof -
  have set: "violations (s\<lparr>aegis_cfg := knob_set k v (aegis_cfg s)\<rparr>) = violations s" for v s
    by (cases k) (simp_all add: violations_def)
  have log: "violations (AEGIS_INFO m s) = violations s" for m s by (simp add: violations_def)
  note [simp] = set log violations_def
  show "keeps (\<lambda>s. violations s = V) (aegis_protect_process_add_t km comm p)"
    "keeps (\<lambda>s. violations s = V) (aegis_protect_process_del_t comm p)"
    "keeps (\<lambda>s. violations s = V) (aegis_protected_file_add_t fe path)"
    "keeps (\<lambda>s. violations s = V) (aegis_protected_file_del_t path)"
    "keeps (\<lambda>s. violations s = V) (aegis_syscall_block_add_t km nr)"
    "keeps (\<lambda>s. violations s = V) (aegis_syscall_block_del_t nr)"
    by (auto simp: list_thread_defs file_added_log_def proc_add_commit_def file_add_commit_def
        syscall_add_commit_def intro!: keeps_step keeps_finish split: option.split sum.split)
  show "keeps (\<lambda>s. violations s = V) (knob_handler_t k dv wr buf)"
    by (auto simp: knob_thread_defs Let_def case_prod_beta simp del: violations_def
        intro!: keeps_step keeps_finish) (simp add: violations_def)
qed

lemma call_tallies:
  assumes "\<not> call_silent c"
  shows "tallies (tally_ends c) 0 (thread_of c)"
proof -
  note ends [simp] = tally_ends_def hook_denied_def
  show ?thesis
  proof (cases c)
    case (C_file_open env f)
    have "tallies (tally_ends c) 0 (aegis_file_permission_t env f m)" for m
      by (rule tallies_hooks) (simp add: C_file_open)
    then show ?thesis by (auto simp: C_file_open aegis_file_open_t_def Let_def intro: tallies_done)
  qed ((simp only: thread_of.simps, rule tallies_hooks; use assms in \<open>simp add: call_silent_def\<close>) |
      (simp only: thread_of.simps, rule keeps_tallies, rule keeps_violations, simp))+
qed


section \<open>All threads together\<close>

lemma mt_step_tallies:
  assumes "mt_step (s, ts) (t, us)" "\<And>i. i < length ts \<Longrightarrow> tallies (E i) (ds i) (ts ! i)"
    and "violations s = V + of_nat (\<Sum>i<length ts. ds i)"
  shows "\<exists>ds'. (\<forall>i<length us. tallies (E i) (ds' i) (us ! i)) \<and> violations t = V + of_nat (\<Sum>i<length us. ds' i)"
  using assms(1)
proof (rule mt_stepE)
  fix j f
  assume st: "j < length ts" "ts ! j = Step f" "t = snd (f s)" "us = ts[j := fst (f s)]"
  have "tallies (E j) (ds j) (Step f)" using assms(2) [OF st(1)] st(2) by simp
  then consider (same) "violations t = violations s" "tallies (E j) (ds j) (fst (f s))"
    | (count) "violations t = violations s + 1" "tallies (E j) (Suc (ds j)) (fst (f s))"
    using st(3) by (auto elim: tallies_StepE)
  then show ?thesis
  proof cases
    case same
    then show ?thesis using assms(2,3) st by (intro exI [of _ ds]) (auto simp: nth_list_update)
  next
    case count
    have "(\<Sum>i<length ts. (ds(j := Suc (ds j))) i) = Suc (\<Sum>i<length ts. ds i)"
      using st(1) by (simp add: sum.remove [of "{..<length ts}" j])
    then show ?thesis
      using count assms(2,3) st
      by (intro exI [of _ "ds(j := Suc (ds j))"]) (auto simp: nth_list_update)
  qed
qed

lemma mt_run_tallies:
  assumes "mt_run P (s, ts) n (t, us)" "\<And>i. i < length ts \<Longrightarrow> tallies (E i) 0 (ts ! i)"
  shows "\<exists>ds. (\<forall>i<length us. tallies (E i) (ds i) (us ! i)) \<and>
    violations t = violations s + of_nat (\<Sum>i<length us. ds i)"
  using assms(1)
proof (induction n "(t, us)" arbitrary: t us rule: mt_run.induct)
  case mt_none
  then show ?case using assms(2) by (intro exI [of _ "\<lambda>_. 0"]) auto
next
  case (mt_next n d)
  obtain v vs where d: "d = (v, vs)" by (cases d)
  from mt_next(2) [OF d] obtain ds where "\<forall>i<length vs. tallies (E i) (ds i) (vs ! i)"
    "violations v = violations s + of_nat (\<Sum>i<length vs. ds i)" by blast
  then show ?case using mt_step_tallies [of v vs t us E ds "violations s"] mt_next(3) d by blast
qed


section \<open>Properties\<close>

text \<open>
  C24: No denial is lost. When calls run concurrently (other than module reads whose denial
  leaves no trace) and have ended, under every schedule the violation counters together have
  grown, modulo \<open>2 ^ 64\<close>, by the number of hook calls that were denied.
\<close>

theorem denials_counted_under_interleaving:
  assumes "mt_runs (s, map thread_of cs) n (t, us)" and "list_all (\<lambda>c. \<not> call_silent c) cs"
    and "\<forall>d. \<not> mt_step (t, us) d"
  shows "violations t = violations s + of_nat (card {i. i < length cs \<and> hook_denied (cs ! i) (us ! i)})"
proof -
  have len: "length us = length cs" using mt_run_length [OF assms(1)] by simp
  have "tallies (tally_ends (cs ! i)) 0 (map thread_of cs ! i)" if "i < length (map thread_of cs)" for i
    using that assms(2) call_tallies [of "cs ! i"] by (simp add: list_all_length)
  from mt_run_tallies [OF assms(1) this] obtain ds
    where ds: "\<forall>i<length us. tallies (tally_ends (cs ! i)) (ds i) (us ! i)"
      "violations t = violations s + of_nat (\<Sum>i<length us. ds i)" by blast
  have "ds i = of_bool (hook_denied (cs ! i) (us ! i))" if "i < length us" for i
    using tallies_ended [of "tally_ends (cs ! i)" "ds i" "us ! i"] ds(1) stuck_ended [OF assms(3)] that
    by (simp add: tally_ends_def)
  then have "(\<Sum>i<length us. ds i) = (\<Sum>i<length us. of_bool (hook_denied (cs ! i) (us ! i)))" by simp
  also have "\<dots> = card {i. i < length cs \<and> hook_denied (cs ! i) (us ! i)}"
    by (simp add: len sum_of_bool_eq lessThan_def Collect_conj_eq)
  finally show ?thesis using ds(2) by simp
qed

text \<open>Two attachments to a protected task at once, and a removal that fails.\<close>

definition demo_denials :: "(8 word list, string) kcall list" where
  "demo_denials = [C_ptrace demo_kenv demo_sshd 0, C_ptrace demo_kenv demo_sshd 0, C_syscall_del 7]"

theorem denials_counted_under_interleaving_witness:
  "\<exists>n t us. mt_runs (demo_state, map thread_of demo_denials) n (t, us) \<and> (\<forall>d. \<not> mt_step (t, us) d) \<and>
     us = [Done (Inl EPERM), Done (Inl EPERM), Done (Inl ENOENT)] \<and>
     violations t = violations demo_state + 2"
proof -
  let ?is = "[2, 0, 1, 0, 1, 0, 1, 0, 1, 0, 1, 0, 1, 0, 1, 0, 1, 0, 1, 0, 1, 0, 1]"
  let ?us = "[Done (Inl EPERM), Done (Inl EPERM), Done (Inl ENOENT)]"
  let ?last = "fold sched ?is (demo_state, map thread_of demo_denials)"
  have "list_all proc_wfe (protected_procs demo_state)" using demo_wf(1) by (simp add: procs_wf_def reg_wf_def)
  from list_ex_protects [OF this] have hit: "list_ex (proc_entry_protects demo_sshd) (protected_procs demo_state)"
    using demo_keys(1) unfolding proc_keys_def by (simp only:) (simp add: demo_sshd_def cstr_Cons)
  have "enabled (aegis_cfg demo_state)" "features (aegis_cfg demo_state) AND AEGIS_FEATURE_PTRACE_RESTRICT \<noteq> 0"
    "features (aegis_cfg demo_state) AND AEGIS_FEATURE_PROCESS_PROTECT \<noteq> 0"
    "\<not> ptrace_restrict_all (aegis_cfg demo_state)"
    "del_first (syscall_hit 7) (blocked_syscalls demo_state) = None"
    by (simp_all add: demo feature_all_bits) (simp add: demo_state_def syscall_hit_def)
  with hit have e: "snd ?last = ?us"
    by (simp add: demo_denials_def aegis_ptrace_access_check_t_def is_process_protected_t_def
        AEGIS_FEATURE_CHECK_t_def test_def finish.simps aegis_syscall_block_del_t_def)
  obtain n where "mt_runs (demo_state, map thread_of demo_denials) n ?last"
    using sched_run [of "map thread_of demo_denials" ?is demo_state] by (auto simp: demo_denials_def)
  then obtain t where run: "mt_runs (demo_state, map thread_of demo_denials) n (t, ?us)"
    using e by (metis prod.collapse)
  have stuck: "\<forall>d. \<not> mt_step (t, ?us) d" by (auto simp: less_Suc_eq elim!: mt_step.cases)
  have "list_all (\<lambda>c. \<not> call_silent c) demo_denials" by (simp add: demo_denials_def call_silent_def)
  from denials_counted_under_interleaving [OF run this stuck]
  have "violations t = violations demo_state +
      of_nat (card {i. i < length demo_denials \<and> hook_denied (demo_denials ! i) (?us ! i)})" .
  also have "{i. i < length demo_denials \<and> hook_denied (demo_denials ! i) (?us ! i)} = {0, 1}"
    by (auto simp: demo_denials_def hook_denied_def less_Suc_eq)
  finally have "violations t = violations demo_state + 2" by simp
  with run stuck show ?thesis by blast
qed

end
