(* ===== verification/Spec2Isabelle.thy ===== *)
theory Spec2Isabelle
  imports Aegisctl_Listings Devkit_Init Aegis_Concurrency Aegis_Rounds Aegis_Windows
    Aegis_Counters
begin

text \<open>
  AEGIS is a Linux security module with a control tool. The module
  (\<^verbatim>\<open>src/aegis\<close>) keeps three policy lists (protected processes, protected files, blocked
  system calls) and a configuration; LSM hooks consult them to allow or deny ptrace, file
  writes and the loading of modules, firmware and kexec images. Policy changes come in through
  six write-only securityfs endpoints and seven sysctl knobs; five securityfs files show the
  state. \<^verbatim>\<open>src/devkit\<close> holds the tool \<^verbatim>\<open>aegisctl\<close>, which drives these files, and the
  first process of a developer image.

  \<^bold>\<open>How the program is modelled.\<close> The file-scope variables of the module are one record,
  \<open>aegis_state\<close>; every C function is a function on it that returns its result
  (\<open>errno + nat\<close>, with every error return a value) and the new state, kernel log included.
  Feature masks and access masks are 32-bit words, event counters 64-bit words that wrap, names
  and paths are byte buffers with C string functions over them. What the module calls of the
  kernel (allocation, \<open>d_path\<close>, \<open>kern_path\<close>, \<open>kernel_read\<close>, the crypto API,
  \<open>proc_dointvec\<close>, securityfs creation) is a field of an environment argument, free to
  fail; where a theorem needs more, the documented behaviour is a named hypothesis
  (\<open>streaming_hash\<close>, \<open>reads_file\<close>, \<open>finite_reader\<close>, \<open>regular_reader\<close>, \<open>dointvec_laws\<close>).

  \<^bold>\<open>Theories and the code they model.\<close>
  \<^item> \<open>Aegis_Prelude\<close>, \<open>Aegis_Text\<close>: error codes, C strings, list walks; \<open>printf\<close>
    conversions, the kernel's \<open>sscanf "%15s %d"\<close> and \<open>kstrtoint\<close>, with their round trips.
  \<^item> \<open>Aegis_State\<close>: \<^verbatim>\<open>aegis.h\<close> and the static variables.
  \<^item> \<open>Aegis_Registry\<close>: locale \<open>policy_list\<close>, the contract of a bounded list that is
    checked, extended and shortened in lock sections; the invariant, the refinement to a bounded
    set and the interleaving of writers are proved in it once.
  \<^item> \<open>Aegis_Process\<close> (\<^verbatim>\<open>aegis_process.c\<close>), \<open>Aegis_File\<close> (\<^verbatim>\<open>aegis_file.c\<close>),
    \<open>Aegis_Audit\<close> (\<^verbatim>\<open>aegis_audit.c\<close>): one operation per C function, an interpretation
    of \<open>policy_list\<close> each (\<open>pl\<close>, \<open>fl\<close>, \<open>sl\<close>). An addition is composed of its check
    section, the construction of the entry and its commit section, because the C code drops the
    lock in between. \<open>Aegis_Digest\<close> has the digest computation of \<^verbatim>\<open>aegis_file.c\<close>, with its
    64-bit file position, and the resources its labels release.
  \<^item> \<open>Aegis_Hooks\<close>, \<open>Aegis_Verdicts\<close> (\<^verbatim>\<open>aegis_lsm.c\<close>): the eleven hooks, the hook table
    as a dispatch \<open>aegis_hooks\<close>, the exact condition of each denial, the counter each denial is
    charged to; locale \<open>decision_table\<close>, interpreted for the table (\<open>ht\<close>).
  \<^item> \<open>Aegis_Control\<close>, \<open>Aegis_Endpoints\<close> (\<^verbatim>\<open>aegis_control.c\<close>): the write handlers on
    the bytes of the caller, and what they promise for arbitrary and for well-formed input.
  \<^item> \<open>Aegis_Sysctl\<close> (\<^verbatim>\<open>aegis_sysctl.c\<close>): the handlers and their mirrors; locale
    \<open>mirrored_knob\<close>, interpreted for all seven knobs.
  \<^item> \<open>Aegis_Securityfs\<close> (\<^verbatim>\<open>aegis_securityfs.c\<close> and the wiring of
    \<^verbatim>\<open>aegis_control.c\<close>): the show functions and what can be read back from them, creation
    and removal of the tree as a list of events, with the mode of each file.
  \<^item> \<open>Aegis_Boot\<close> (\<^verbatim>\<open>aegis_module.c\<close>, \<open>aegis_init\<close> of \<^verbatim>\<open>aegis_lsm.c\<close>): the state
    boot leaves and the policy in force from then on.
  \<^item> \<open>Aegis_System\<close>: the module in operation one call after another, a step relation over hook
    calls, control writes and knob accesses by anyone, in any order.
  \<^item> \<open>Aegis_Threads\<close>: the list operations, knob handlers and the hooks that touch shared state once
    more, as threads. A step of a thread is what the code does without another thread coming in between:
    a section under a spinlock, a single read or write of a configuration field or of a sysctl
    integer (two reads for \<open>AEGIS_FEATURE_CHECK\<close>), one atomic increment, one log line; the digest
    of a new file entry, which touches no shared state, is a step between its check and its commit. The read of
    an entry after its lock is released is a step that faults when the entry is no longer on the
    list.
  \<^item> \<open>Aegis_Interleaving\<close>, \<open>Aegis_Schedules\<close>, \<open>Aegis_Concurrency\<close>: any number of such
    calls at once, in any schedule. Locale \<open>thread_invariant\<close> carries what each step keeps to
    all interleavings (interpreted as \<open>ty\<close> for the bounds of the C types); \<open>relies\<close> bounds
    what a thread returns while the others keep a condition true, \<open>bounded\<close> its steps.
  \<^item> \<open>Aegis_Rely\<close>, \<open>Aegis_Serial\<close>: rely and guarantee for these threads (locale
    \<open>rely_guarantee\<close>), interpreted (\<open>rg\<close>) with the key of a list entry as what a call is
    responsible for; updates of different keys do not disturb each other. \<open>Aegis_Knobs\<close>: the same
    locale (\<open>kn\<close>) with a knob as what its writer is responsible for. \<open>Aegis_Counters\<close>: the
    increments of the violation counters, thread by thread. \<open>Aegis_Rounds\<close>: control writes as such
    threads, and the module in operation without atomic calls, in rounds of concurrent requests. \<open>Aegis_Windows\<close>: the
    hooks that have two reasons to deny, while one reason stays and while the policy goes from one
    to the other.
  \<^item> \<open>Aegisctl\<close> (\<^verbatim>\<open>devkit/src/aegisctl.c\<close>): the tool over a record of system calls.
    \<open>Aegisctl_Kernel\<close>: locale \<open>control_tree\<close> for what it relies on, interpreted on the kernel
    model (\<open>kt\<close>): the securityfs files as the initcall created them and the sysctl knobs, over the
    state of the module. An open is checked against the mode of the file (0444 and 0200 from the
    events of \<open>Aegis_Securityfs\<close>, 0644 for sysctl), for a root and a non-root caller. \<open>Aegisctl_Listings\<close>: the listing commands there, and how long
    the texts they print can be.
  \<^item> \<open>Devkit_Init\<close> (\<^verbatim>\<open>devkit/src/init/aegis_init.c\<close>): the requests the first process makes
    of the kernel, in order, and a specification of the system they prepare (\<open>prepare\<close>,
    \<open>developer_system\<close>), which refuses requests in the wrong order.

  \<^bold>\<open>What is shown.\<close> Safety of the whole: an accepted protection is enforced whatever
  unprivileged activity follows, the states between rounds of concurrent requests are well formed,
  only administrators change the lists, hooks change no decision (this theory, \<open>Aegis_Rounds\<close>,
  \<open>Aegis_System\<close>, \<open>Aegis_Verdicts\<close>).
  Function: the exact verdict of every deciding hook; the three lists as bounded sets, with every
  error code; digests, listings and status files; what each endpoint makes of its input; boot,
  knobs, the tool (its write commands and its switch, from the command line to the verdicts of the
  hooks); the system the first process prepares before it starts the shell.
  Errors: writes and tree creation are all or nothing, resources are released on every path.
  Concurrency: the bounds of the C types hold in every interleaving; the verdicts of
  the file, ptrace and loading hooks are forced while the policy about their object stays put;
  updates of different keys amount to the calls one after another; every denial is counted once; a
  knob and its mirror agree whenever its only writer is through, but not after two writers; what is left of the
  list invariant when writers interleave. The theorems about dropped arguments, cut names, the
  unbounded digest loop, duplicated entries, the entry read after it was freed, the file listing cut
  at 4095 bytes, the attachment let through between two reasons to deny and the knob that shows
  what the hooks do not do state behaviour
  of the code that its documentation does not promise. Lemmas that tie the model together are not
  listed as properties: run alone a thread is the sequential operation (\<open>alone_call\<close>), a control
  write is its list operation (\<open>write_is_call\<close>), no thread has more than 13 steps.

  \<^bold>\<open>Loops, bounds.\<close> List walks and string loops are structural or have a measure. The digest
  loop has no bound in the source: it is a partial function into \<open>option\<close> where \<open>None\<close>
  is a call that never returns. Its position is a 64-bit word that \<open>kernel_read\<close> updates. It is
  proved to return exactly on files whose reads end, which are all those read like a regular file
  (the position runs out), and not on a device that gives bytes without moving the position. No
  definition uses fuel.

  \<^bold>\<open>What is not modelled.\<close> Spinlocks are modelled by the atomicity of their sections; steps
  of different threads are sequentially consistent, so reordering by compiler or processor is not
  seen. The release of memory is modelled where it can be observed: digest resources, securityfs
  entries, and list entries used after their removal (an entry is taken for freed once no equal
  entry is on the list). A call of \<open>proc_dointvec\<close> is one access to its integer. The
  registration machinery of the kernel, \<open>seq_file\<close>, build files, kernel patches, scripts and
  documents are outside the model. Hook calls, control writes and knob accesses are atomic steps
  of \<open>Aegis_System\<close>; their steps interleave in \<open>Aegis_Concurrency\<close>, \<open>Aegis_Rounds\<close> and the
  theories between, and the lock sections of concurrent writers in the last section below. A file
  is taken to give the same answer at the same position while its digest is computed. On the
  kernel model a caller is root, who passes every file mode, or neither owner nor group of the
  files.

  Every function of the C sources has its definition; the lines without one are prototypes, include
  lines, comments, the declarations of locks and list heads, \<open>file_operations\<close> tables that only
  name the handlers and the registration records for the kernel.
\<close>

unbundle bit_operations_syntax

section \<open>From a control write to a denied access\<close>

lemma demo_write_shadow:
  "\<exists>t. aectl_write (demo_ctl True) Files_add (''/etc/shadow'' @ []) (length (''/etc/shadow'' @ []))
     (boot_state demo_boot) = Some (Inr 11, t)"
proof -
  have auth: "aectl_authorized (demo_ctl True)" by simp
  have len: "length ''/etc/shadow'' < AEGIS_PATH_LEN" by (simp add: AEGIS_PATH_LEN_def)
  obtain buf where b: "cstr buf = ''/etc/shadow''"
    and w: "\<And>oper. aectl_write_op (demo_ctl True) (''/etc/shadow'' @ []) (length (''/etc/shadow'' @ []))
      oper (boot_state demo_boot) =
      (case oper buf (boot_state demo_boot) of None \<Rightarrow> None
       | Some (r, t) \<Rightarrow> Some (if r = ret0 then Inr (length (''/etc/shadow'' @ [])) else r, t))"
    using write_op_text [OF auth demo_ctl_fields(2) plain_shadow disjI1 [OF refl] len] by blast
  have v: "file_valid buf" using b by (simp add: file_valid_def AEGIS_PATH_LEN_def)
  have wf: "files_wf (boot_state demo_boot)" using boot_state_facts(1) by (simp add: lists_wf_def)
  obtain r t where add: "aegis_protected_file_add (demo_fe (chunk_reader [7, 8])) (Some buf)
      (boot_state demo_boot) = Some (r, t)"
    using file_add_returns [of "demo_fe (chunk_reader [7, 8])" buf "boot_state demo_boot"]
      reads_file_finite [OF chunk_reader_reads, of "[7, 8]"] by (simp, blast)
  from file_add_refines [OF wf v add] have "r = ret0"
    by (simp add: boot_state_facts(4) bset_insert_def bset_add_def AEGIS_MAX_PROTECTED_FILES_def)
  then show ?thesis
    unfolding aectl_write.simps aectl_files_add_write_def w using add by simp
qed

text \<open>
  C1: A protection once accepted holds. In any state reached from boot by rounds of concurrent
  requests, when file integrity is on and enforced and a write of a path shorter than 256 bytes
  to the file endpoint reports success, then after anything unprivileged has happened (hook
  calls, refused control writes, knob reads, in any number and order) writing to a file of that
  path and opening it for writing are denied, provided the hook gets the page it needs and
  \<open>d_path\<close> gives the path (without either the hook allows the access).
\<close>

theorem protected_file_stays_protected:
  assumes "sys_rounds (boot_state benv) rss s"
    and "plain_text p" and "length p < AEGIS_PATH_LEN" and "nl = [] \<or> nl = [LF]"
    and "aectl_write env Files_add (p @ nl) (length (p @ nl)) s = Some (Inr n, t)" and "n \<noteq> 0"
    and "AEGIS_FEATURE_CHECK AEGIS_FEATURE_FILE_INTEGRITY s"
    and "file_integrity_enforce (aegis_cfg s)"
    and "sys_run t ls u" and "list_all unprivileged ls"
    and "get_free_page ke" and "d_path ke (f_path f) = Inr path" and "cstr path = p"
    and "f_mode f AND FMODE_WRITE \<noteq> 0"
  shows "fst (aegis_hooks ke (File_permission f MAY_WRITE) u) = Inl EACCES \<and>
    fst (aegis_hooks ke (File_open f) u) = Inl EACCES"
proof -
  have inv: "sys_inv s" by (rule sys_rounds_inv [OF assms(1) boot_inv])
  note prot = file_write_protects [OF inv assms(2-6)]
  have feat: "AEGIS_FEATURE_CHECK AEGIS_FEATURE_FILE_INTEGRITY t"
    "file_integrity_enforce (aegis_cfg t)"
    using assms(7,8) prot(3) same_feature [OF prot(3)] by simp_all
  have "fst (aegis_file_permission ke f MAY_WRITE t) = Inl EACCES"
    using verdict_file_denied [OF prot(1,2) feat _ assms(11-13)] by (simp add: mode_bits)
  moreover from this have "fst (aegis_file_open ke f t) = Inl EACCES"
    using open_mask_write [OF assms(14)] by simp
  moreover have "policy_of u = policy_of t" by (rule unprivileged_run [OF assms(9,10)])
  ultimately show ?thesis
    using hooks_by_policy [of u t ke "File_permission f MAY_WRITE"]
      hooks_by_policy [of u t ke "File_open f"] by simp
qed

theorem protected_file_stays_protected_witness:
  "\<exists>t. aectl_write (demo_ctl True) Files_add (''/etc/shadow'' @ []) (length (''/etc/shadow'' @ []))
      (boot_state demo_boot) = Some (Inr 11, t) \<and>
    fst (aegis_hooks demo_kenv (File_open \<lparr>f_path = ''/etc/shadow'', f_mode = 2\<rparr>) t) = Inl EACCES"
proof -
  obtain t where w: "aectl_write (demo_ctl True) Files_add (''/etc/shadow'' @ [])
      (length (''/etc/shadow'' @ [])) (boot_state demo_boot) = Some (Inr 11, t)"
    using demo_write_shadow by blast
  have feat: "AEGIS_FEATURE_CHECK AEGIS_FEATURE_FILE_INTEGRITY (boot_state demo_boot)"
    "file_integrity_enforce (aegis_cfg (boot_state demo_boot))"
    by (simp_all add: AEGIS_FEATURE_CHECK_def boot_state_facts(3) aegis_cfg_init_def feature_all_bits)
  have len: "length ''/etc/shadow'' < AEGIS_PATH_LEN" by (simp add: AEGIS_PATH_LEN_def)
  have "fst (aegis_hooks demo_kenv (File_permission \<lparr>f_path = ''/etc/shadow'', f_mode = 2\<rparr> MAY_WRITE) t)
      = Inl EACCES \<and>
    fst (aegis_hooks demo_kenv (File_open \<lparr>f_path = ''/etc/shadow'', f_mode = 2\<rparr>) t) = Inl EACCES"
    by (rule protected_file_stays_protected [OF rounds_none plain_shadow len disjI1 [OF refl] w _ feat
          run_none, where path = "''/etc/shadow''"])
      (simp_all add: demo_kenv_def cstr_Cons mode_bits)
  with w show ?thesis by blast
qed


lemma demo_write_nginx:
  "\<exists>t. aectl_write (demo_ctl True) Procs_add (''nginx'' @ []) (length (''nginx'' @ []))
     (boot_state demo_boot) = Some (Inr 5, t)"
proof -
  have auth: "aectl_authorized (demo_ctl True)" by simp
  have c: "comm_word ''nginx''" by (simp add: comm_word_def isspace_def)
  have plain: "plain_text ''nginx''" by (simp add: plain_text_def)
  have len: "length (''nginx'' @ []) < AEGIS_PATH_LEN" by (simp add: AEGIS_PATH_LEN_def)
  have v: "length (cstr ''nginx'') < AEGIS_COMM_LEN" by (simp add: cstr_Cons AEGIS_COMM_LEN_def)
  have wf: "procs_wf (boot_state demo_boot)" using boot_state_facts(1) by (simp add: lists_wf_def)
  obtain r t where add: "aegis_protect_process_add True (Some ''nginx'') 0 (boot_state demo_boot) = (r, t)"
    by fastforce
  have "proc_keys (boot_state demo_boot) = default_procs"
    by (rule boot_state_facts(5)) (simp add: demo_boot_def)
  with process_add_refines [OF wf v add] have "r = ret0"
    by (simp add: bset_insert_def bset_add_def default_procs_def AEGIS_MAX_PROTECTED_PROCS_def cstr_Cons)
  then show ?thesis
    using procs_write_text(1) [OF auth plain disjI1 [OF refl] len, of 0 "''nginx''" 0
        "boot_state demo_boot"] sscanf_comm [OF c] add by simp
qed

text \<open>
  C2: A process name once accepted is out of reach of debuggers. In any state reached from boot
  by rounds of concurrent requests in which the module is enabled with its ptrace restriction and
  process protection features on, when a write of a name to the process endpoint reports success,
  then after anything unprivileged has happened no task of that name, and no thread of a process
  whose leader has it, can be attached to.
\<close>

theorem protected_process_stays_protected:
  assumes "sys_rounds (boot_state benv) rss s" and "comm_word c" and "nl = [] \<or> nl = [LF]"
    and "aectl_write env Procs_add (c @ nl) (length (c @ nl)) s = Some (Inr n, t)" and "n \<noteq> 0"
    and "AEGIS_FEATURE_CHECK AEGIS_FEATURE_PTRACE_RESTRICT s"
    and "AEGIS_FEATURE_CHECK AEGIS_FEATURE_PROCESS_PROTECT s"
    and "sys_run t ls u" and "list_all unprivileged ls"
    and "c \<in> {cstr (task_comm child), cstr (task_leader_comm child)}"
  shows "fst (aegis_hooks ke (Ptrace_access_check child mode) u) = Inl EPERM"
proof -
  have inv: "sys_inv s" by (rule sys_rounds_inv [OF assms(1) boot_inv])
  note prot = proc_write_protects [OF inv assms(2-5)]
  have "protects_task (proc_keys t) child"
    using prot(2) assms(10) unfolding protects_task_def by blast
  then have "fst (aegis_ptrace_access_check ke child mode t) = Inl EPERM"
    unfolding ptrace_verdict [OF prot(1)] using assms(6,7) same_feature [OF prot(3)] by simp
  moreover have "policy_of u = policy_of t" by (rule unprivileged_run [OF assms(8,9)])
  ultimately show ?thesis
    using hooks_by_policy [of u t ke "Ptrace_access_check child mode"] by simp
qed

theorem protected_process_stays_protected_witness:
  "\<exists>t. aectl_write (demo_ctl True) Procs_add (''nginx'' @ []) (length (''nginx'' @ []))
      (boot_state demo_boot) = Some (Inr 5, t) \<and>
    fst (aegis_hooks demo_kenv (Ptrace_access_check
      \<lparr>task_comm = ''worker'', task_pid = 77, task_leader_comm = ''nginx''\<rparr> 0) t) = Inl EPERM"
proof -
  obtain t where w: "aectl_write (demo_ctl True) Procs_add (''nginx'' @ [])
      (length (''nginx'' @ [])) (boot_state demo_boot) = Some (Inr 5, t)"
    using demo_write_nginx by blast
  have c: "comm_word ''nginx''" by (simp add: comm_word_def isspace_def)
  have feat: "AEGIS_FEATURE_CHECK AEGIS_FEATURE_PTRACE_RESTRICT (boot_state demo_boot)"
    "AEGIS_FEATURE_CHECK AEGIS_FEATURE_PROCESS_PROTECT (boot_state demo_boot)"
    by (simp_all add: AEGIS_FEATURE_CHECK_def boot_state_facts(3) aegis_cfg_init_def feature_all_bits)
  have "fst (aegis_hooks demo_kenv (Ptrace_access_check
      \<lparr>task_comm = ''worker'', task_pid = 77, task_leader_comm = ''nginx''\<rparr> 0) t) = Inl EPERM"
    by (rule protected_process_stays_protected [OF rounds_none c disjI1 [OF refl] w _ feat run_none])
      (simp_all add: cstr_Cons)
  with w show ?thesis by blast
qed

section \<open>Switching off and on\<close>

text \<open>Writing 0 and then 1 to the master switch, as the sysctl handler sees it.\<close>

lemma disable_enable_roundtrip:
  assumes "enabled (aegis_cfg s)"
    and "\<forall>v. dv True ''0'' v = (ret0, 0)" and "\<forall>v. dv True ''1'' v = (ret0, 1)"
    and "t = snd (knob_handler K_enabled dv True ''0'' s)"
    and "u = snd (knob_handler K_enabled dv True ''1'' t)"
  shows "fst (aegis_hooks env h t) = ret0 \<and> fst (aegis_hooks env h u) = fst (aegis_hooks env h s)"
proof -
  have "aegis_cfg t = (aegis_cfg s)\<lparr>enabled := False\<rparr>"
    using knob_effect [of K_enabled dv True "''0''" s] assms(2,4) by simp
  moreover have "aegis_cfg u = (aegis_cfg t)\<lparr>enabled := True\<rparr>"
    using knob_effect [of K_enabled dv True "''1''" t] assms(3,5) by simp
  ultimately have off: "\<not> enabled (aegis_cfg t)" and cfg: "aegis_cfg u = aegis_cfg s"
    using assms(1) by simp_all
  have "lists_of u = lists_of s" using assms(4,5) knob_lists by metis
  then have "fst (aegis_hooks env h u) = fst (aegis_hooks env h s)"
    using cfg by (intro verdict_by_cfg_lists) (simp_all add: lists_of_def blocked_set_def)
  then show ?thesis by (simp add: hooks_disarmed [OF off])
qed

lemma header_kept: "aegis_sysctl_header (snd (knob_handler k dv wr buf s)) = aegis_sysctl_header s"
  by (cases k) (auto simp: sysctl_defs Let_def case_prod_beta aegis_log_defs)

text \<open>What one run of a switching command leaves behind.\<close>

lemma switch_command:
  assumes "aegisctl_main kernel_os [prog, c] (w, out) = Some (r, w', out')"
    and "(c, v) \<in> {(''disable'', ''0''), (''enable'', ''1'')}"
  shows "kw_state w' = (if aegis_sysctl_header (kw_state w) \<and> kw_root w
      then snd (knob_handler K_enabled (kw_dointvec w) True v (kw_state w)) else kw_state w)"
    and "kw_root w' = kw_root w" and "kw_dointvec w' = kw_dointvec w"
proof -
  obtain o1 x where "write_sysctl kernel_os ''enabled'' v (w, o1) = Some x" "fst (snd x) = w'"
    using assms by (auto simp: aegisctl_main_def cmd_enable_def cmd_disable_def)
  with write_enabled(1) [of v w o1] write_enabled(2) [of v w o1 x]
  show "kw_state w' = (if aegis_sysctl_header (kw_state w) \<and> kw_root w
      then snd (knob_handler K_enabled (kw_dointvec w) True v (kw_state w)) else kw_state w)"
    and "kw_root w' = kw_root w" and "kw_dointvec w' = kw_dointvec w" by (simp_all del: knob_handler.simps)
qed

lemma switch_returns:
  "\<exists>r w' out'. aegisctl_main kernel_os [prog, ''disable''] (w, out) = Some (r, w', out')"
  "\<exists>r w' out'. aegisctl_main kernel_os [prog, ''enable''] (w, out) = Some (r, w', out')"
  by (simp add: aegisctl_main_def cmd_disable_def write_enabled_returns)
    (simp add: aegisctl_main_def cmd_enable_def write_enabled_returns)

text \<open>
  C31: Disabling with the tool is fully undone by enabling with it. On the kernel model, with the
  module enabled before, the sysctl table registered and \<open>proc_dointvec\<close> accepting 0 and 1, after a root caller's \<open>aegisctl disable\<close>
  every hook call is allowed, and after a following \<open>aegisctl enable\<close> every hook call gets the
  verdict it had before; for any other caller the two commands leave the module alone.
\<close>

theorem aegisctl_switch_roundtrip:
  assumes "enabled (aegis_cfg (kw_state w))" and "aegis_sysctl_header (kw_state w)"
    and "\<forall>v. kw_dointvec w True ''0'' v = (ret0, 0)" and "\<forall>v. kw_dointvec w True ''1'' v = (ret0, 1)"
    and "aegisctl_main kernel_os [prog, ''disable''] (w, out) = Some (r1, w1, out1)"
    and "aegisctl_main kernel_os [prog, ''enable''] (w1, out1) = Some (r2, w2, out2)"
  shows "(kw_root w \<longrightarrow> fst (aegis_hooks env h (kw_state w1)) = ret0 \<and>
       fst (aegis_hooks env h (kw_state w2)) = fst (aegis_hooks env h (kw_state w))) \<and>
    (\<not> kw_root w \<longrightarrow> kw_state w1 = kw_state w \<and> kw_state w2 = kw_state w)"
proof (cases "kw_root w")
  case True
  note off = switch_command [OF assms(5), of "''0''"] and on = switch_command [OF assms(6), of "''1''"]
  have 1: "kw_state w1 = snd (knob_handler K_enabled (kw_dointvec w) True ''0'' (kw_state w))"
    using off True assms(2) by (simp del: knob_handler.simps)
  then have "kw_state w2 = snd (knob_handler K_enabled (kw_dointvec w) True ''1'' (kw_state w1))"
    using on off(2,3) True assms(2) header_kept by (simp del: knob_handler.simps)
  from disable_enable_roundtrip [OF assms(1,3,4) 1 this] True show ?thesis by blast
next
  case False
  then show ?thesis
    using switch_command [OF assms(5), of "''0''"] switch_command [OF assms(6), of "''1''"] by simp
qed

theorem aegisctl_switch_roundtrip_witness:
  "\<exists>w1 w2 :: (8 word list, unit) kworld. \<exists>r1 r2 out1 out2.
     aegisctl_main kernel_os [''aegisctl'', ''disable'']
       (demo_world\<lparr>kw_state := demo_state\<lparr>aegis_sysctl_header := True\<rparr>\<rparr>, []) = Some (r1, w1, out1) \<and>
     aegisctl_main kernel_os [''aegisctl'', ''enable''] (w1, out1) = Some (r2, w2, out2) \<and>
     fst (aegis_hooks demo_kenv (Ptrace_access_check demo_sshd 0) (kw_state w1)) = ret0 \<and>
     fst (aegis_hooks demo_kenv (Ptrace_access_check demo_sshd 0) (kw_state w2)) = Inl EPERM"
proof -
  let ?s = "demo_state\<lparr>aegis_sysctl_header := True\<rparr>" and ?h = "Ptrace_access_check demo_sshd 0"
  define w where "w = demo_world\<lparr>kw_state := ?s\<rparr>"
  note ret = switch_returns
  obtain r1 w1 out1 where 1: "aegisctl_main kernel_os [''aegisctl'', ''disable''] (w, []) = Some (r1, w1, out1)"
    using ret(1) by blast
  obtain r2 w2 out2 where 2: "aegisctl_main kernel_os [''aegisctl'', ''enable''] (w1, out1) = Some (r2, w2, out2)"
    using ret(2) by blast
  have fields: "enabled (aegis_cfg (kw_state w))" "aegis_sysctl_header (kw_state w)" "kw_root w"
    "\<forall>v. kw_dointvec w True ''0'' v = (ret0, 0)" "\<forall>v. kw_dointvec w True ''1'' v = (ret0, 1)"
    by (simp_all add: w_def demo_world_def demo demo_dointvec_01)
  have "fst (aegis_hooks demo_kenv ?h ?s) = fst (aegis_hooks demo_kenv ?h demo_state)"
    by (rule verdict_by_cfg_lists) (simp_all add: blocked_set_def)
  also have "\<dots> = Inl EPERM"
    by (simp add: ptrace_verdict [OF demo_wf(1)] protects_task_def demo cstr_Cons)
  finally have "fst (aegis_hooks demo_kenv ?h (kw_state w)) = Inl EPERM" by (simp add: w_def)
  with aegisctl_switch_roundtrip [OF fields(1,2,4,5) 1 2, of demo_kenv ?h] fields(3)
  show ?thesis using 1 2 unfolding w_def by (intro exI conjI) auto
qed

section \<open>Concurrent writers\<close>

text \<open>
  The additions drop the list lock between their check and their commit section. The runs below
  interleave these sections for up to \<open>N\<close> writers, and removals, on one list.
\<close>

abbreviation proc_race where
  "proc_race \<equiv> race_run proc_add_check proc_built proc_add_commit
     (\<lambda>k. aegis_protect_process_del (Some (fst k)) (snd k))"

abbreviation file_race where
  "file_race \<equiv> race_run file_add_check file_built file_add_commit
     (\<lambda>p. aegis_protected_file_del (Some p))"

abbreviation syscall_race where
  "syscall_race \<equiv> race_run syscall_add_check syscall_built syscall_add_commit aegis_syscall_block_del"

text \<open>
  C22: Concurrent writers cannot corrupt a list: from well-formed lists, any interleaving of the
  sections of up to \<open>N\<close> writers and of removals keeps each counter equal to the length of its
  list, and a list together with the entries in flight exceeds its capacity by at most
  \<open>N - 1\<close> entries.
\<close>

theorem concurrent_writers_bounded:
  assumes "lists_wf s0" and "1 \<le> N"
    and "proc_race N s0 (s, ps)" and "file_race N s0 (t, fs)" and "syscall_race N s0 (u, ns)"
  shows "protected_proc_count s = int (length (protected_procs s)) \<and>
     length (protected_procs s) + length ps \<le> AEGIS_MAX_PROTECTED_PROCS + N - 1 \<and>
     protected_file_count t = int (length (protected_files t)) \<and>
     length (protected_files t) + length fs \<le> AEGIS_MAX_PROTECTED_FILES + N - 1 \<and>
     blocked_syscall_count u = int (length (blocked_syscalls u)) \<and>
     length (blocked_syscalls u) + length ns \<le> AEGIS_MAX_BLOCKED_SYSCALLS + N - 1"
  using pl.race_count [OF assms(3) _ assms(2)] fl.race_count [OF assms(4) _ assms(2)]
    sl.race_count [OF assms(5) _ assms(2)] assms(1)
  by (simp add: lists_wf_def procs_wf_def files_wf_def syscalls_wf_def)

theorem concurrent_writers_bounded_witness:
  "proc_race 2 aegis_statics (aegis_statics, [proc_new ''sshd'' 0, proc_new ''sshd'' 0]) \<and>
   length (protected_procs aegis_statics) + length [proc_new ''sshd'' 0, proc_new ''sshd'' 0]
     \<le> AEGIS_MAX_PROTECTED_PROCS + 2 - 1"
proof -
  have ok: "proc_add_check (''sshd'', 0) aegis_statics = ret0"
    by (simp add: proc_add_check_def AEGIS_MAX_PROTECTED_PROCS_def)
  have b: "proc_built (''sshd'', 0) (proc_new ''sshd'' 0)" by (simp add: proc_built_def)
  have r: "proc_race 2 aegis_statics (aegis_statics, [proc_new ''sshd'' 0, proc_new ''sshd'' 0])"
    by (rule pl.race_duplicate(1) [OF ok b])
  have "1 \<le> (2 :: nat)" by simp
  from concurrent_writers_bounded [OF lists_wf_statics this r race_start race_start] r
  show ?thesis by simp
qed

text \<open>
  C23: The list invariant does not survive the race. From any well-formed process list that is
  not full, two writers that add the same fresh name of at most 15 bytes both succeed and leave it twice on the list (with 63
  entries before, 65 after, above the capacity), and one successful removal leaves it protected.
\<close>

theorem concurrent_adds_duplicate:
  assumes "procs_wf s" and "proc_add_check k s = ret0" and "proc_valid k"
  shows "\<exists>t. proc_race 2 s (t, []) \<and> length (protected_procs t) = length (protected_procs s) + 2 \<and>
    fst (aegis_protect_process_del (Some (fst k)) (snd k) t) = ret0 \<and>
    proc_norm k \<in> proc_keys (snd (aegis_protect_process_del (Some (fst k)) (snd k) t))"
proof -
  let ?e = "proc_new (fst k) (snd k)"
  let ?t = "proc_add_commit ?e (proc_add_commit ?e s)"
  have b: "proc_built k ?e" by (simp add: proc_built_def)
  have 4: "proc_race 2 s (?t, [])" by (rule pl.race_duplicate(2) [OF assms(2) b])
  have key: "proc_key ?e = proc_norm k"
    using assms(3) proc_new_key [of "fst k" "snd k"] by (simp add: proc_norm_def proc_valid_def)
  then have hit: "proc_hit k ?e" by (simp add: proc_hit_key [OF proc_new_wfe])
  have "\<not> list_ex (proc_hit k) (protected_procs s)" using assms(2) by (simp add: pl.check_ok_iff)
  then have "del_first (proc_hit k) (protected_procs s @ [?e, ?e]) = Some (protected_procs s @ [?e])"
    using hit by (simp add: del_first_append_miss)
  then have "fst (aegis_protect_process_del (Some (fst k)) (snd k) ?t) = ret0"
    "protected_procs (snd (aegis_protect_process_del (Some (fst k)) (snd k) ?t)) = protected_procs s @ [?e]"
    by (simp_all add: aegis_protect_process_del_def proc_add_commit_def)
  with 4 key show ?thesis
    by (intro exI [of _ ?t]) (simp add: proc_add_commit_def proc_keys_def)
qed

theorem concurrent_adds_duplicate_witness:
  "procs_wf aegis_statics \<and> proc_add_check (''sshd'', 0) aegis_statics = ret0 \<and>
   (\<exists>t. proc_race 2 aegis_statics (t, []) \<and> length (protected_procs t) = 2)"
proof -
  have ok: "proc_add_check (''sshd'', 0) aegis_statics = ret0"
    by (simp add: proc_add_check_def AEGIS_MAX_PROTECTED_PROCS_def)
  have v: "proc_valid (''sshd'', 0)" by (simp add: proc_valid_def cstr_Cons AEGIS_COMM_LEN_def)
  from concurrent_adds_duplicate [OF procs_wf_statics ok v] ok show ?thesis by auto
qed

end
